theory Spec2Isabelle
  imports
    Main
    "HOL-Library.Word"
    "HOL-Library.AList"
    "HOL-Library.Char_ord"
    "HOL-Library.List_Lexorder"
begin

unbundle bit_operations_syntax

section \<open>Strings and numbers as JavaScript renders them\<close>

text \<open>
  Addresses and hashes are JavaScript strings; the model uses \<open>string\<close> and covers the
  strings whose code units are below 256 (every address and hash of the program is
  ASCII). \<open>toLowerCase\<close> maps the letters A-Z to a-z and leaves every other character
  alone.
\<close>

definition lowerChar :: "char \<Rightarrow> char" where
  "lowerChar c =
     (let n = (of_char c :: nat)
      in if 65 \<le> n \<and> n \<le> 90 then char_of (n + 32) else c)"

definition toLowerCase :: "string \<Rightarrow> string" where
  "toLowerCase s = map lowerChar s"

text \<open>A JavaScript string is truthy when it is not empty; \<open>null\<close> is falsy.\<close>

fun truthy :: "string option \<Rightarrow> bool" where
  "truthy None = False"
| "truthy (Some s) = (s \<noteq> [])"

text \<open>\<open>BigInt.prototype.toString()\<close>: decimal digits, with a minus sign below zero.\<close>

definition digitChar :: "nat \<Rightarrow> char" where
  "digitChar d = (if d < 10 then char_of (48 + d) else char_of (87 + d))"

fun natToString :: "nat \<Rightarrow> nat \<Rightarrow> string" where
  "natToString radix n =
     (if radix < 2 \<or> n < radix then [digitChar n]
      else natToString radix (n div radix) @ [digitChar (n mod radix)])"

definition bigintToString :: "int \<Rightarrow> string" where
  "bigintToString i =
     (if i < 0 then CHR ''-'' # natToString 10 (nat (- i)) else natToString 10 (nat i))"

text \<open>\<open>String.prototype.padStart(n, c)\<close> and \<open>Array.prototype.join(sep)\<close>.\<close>

definition padStart :: "nat \<Rightarrow> char \<Rightarrow> string \<Rightarrow> string" where
  "padStart n c s = replicate (n - length s) c @ s"

fun join :: "string \<Rightarrow> string list \<Rightarrow> string" where
  "join sep [] = []"
| "join sep [x] = x"
| "join sep (x # y # ys) = x @ sep @ join sep (y # ys)"

text \<open>
  An exception of the source is a value of \<open>error\<close>. \<open>TypeError\<close> is what JavaScript
  raises when a method is called on \<open>undefined\<close> or \<open>null\<close>; \<open>NotSupported\<close> is the
  error the specification names for \<open>reorg\<close> (the source never raises it).
\<close>

datatype error = TypeError | NotSupported

section \<open>StateManager: accounts, transfers and the state root\<close>

text \<open>
  \<open>StateManager.accounts\<close> is a \<open>Map<string, AccountState>\<close> whose values are mutable
  objects: \<open>accounts.get\<close> hands out a reference, and \<open>transfer\<close> and
  \<open>processTransaction\<close> write through it. The model keeps the objects in a store
  (\<open>heap\<close>, a reference is an index) and the map as an association list in insertion
  order, as a JavaScript \<open>Map\<close> iterates. \<open>bigint\<close> is \<open>int\<close>. A snapshot holds a
  copy of the map, \<open>new Map(this.accounts)\<close>: the entries are copied, the account
  objects are shared with the live map. The \<open>contracts\<close> map is never written and is
  left out.
\<close>

record AccountState =
  balance :: int
  nonce :: int

type_synonym ref = nat

record StateSnapshot =
  snap_accounts :: "(string \<times> ref) list"
  snap_stateRoot :: string
  snap_timestamp :: nat

record StateManager =
  heap :: "AccountState list"
  accounts :: "(string \<times> ref) list"
  snapshots :: "StateSnapshot list"
  currentStateRoot :: string

text \<open>
  The fields of \<open>Transaction\<close>, as the class declares them: \<open>to\<close> is a string or
  \<open>null\<close>; \<open>tx_hash\<close> is the content hash the constructor stores (keccak256 of the
  fields, not recomputed here).
\<close>

text \<open>
  \<open>StateManager\<close>, \<open>TransactionPool\<close> and \<open>Chain\<close> read \<open>transaction.from\<close>. The
  class declares no such property and no constructor sets it: on every transaction the
  repository builds it is \<open>undefined\<close>, which is \<open>None\<close> here. It is \<open>Some\<close> only on an
  object to which a caller has attached the property (\<open>withSender\<close>).
\<close>

record Transaction =
  tx_nonce :: int
  gasPrice :: int
  gasLimit :: int
  tx_from :: "string option"
  tx_to :: "string option"
  tx_value :: int
  tx_data :: string
  tx_v :: int
  tx_r :: string
  tx_s :: string
  tx_hash :: string

text \<open>Object allocation and field update through a reference.\<close>

definition alloc :: "AccountState list \<Rightarrow> AccountState \<Rightarrow> ref \<times> AccountState list" where
  "alloc h a = (length h, h @ [a])"

definition modify :: "AccountState list \<Rightarrow> ref \<Rightarrow> (AccountState \<Rightarrow> AccountState) \<Rightarrow> AccountState list" where
  "modify h r f = h[r := f (h ! r)]"

definition emptyState :: StateManager where
  "emptyState = \<lparr>heap = [], accounts = [], snapshots = [], currentStateRoot = []\<rparr>"

text \<open>\<open>accounts.get(k) || {balance: 0n, nonce: 0n}\<close>: the stored object, or a fresh one.\<close>

definition getOrFresh :: "StateManager \<Rightarrow> string \<Rightarrow> ref \<times> AccountState list" where
  "getOrFresh s k =
     (case map_of (accounts s) k of
        Some r \<Rightarrow> (r, heap s)
      | None \<Rightarrow> alloc (heap s) \<lparr>balance = 0, nonce = 0\<rparr>)"

subsection \<open>The state root\<close>

text \<open>
  \<open>simpleHash\<close>: \<open>hash = ((hash << 5) - hash) + char; hash = hash & hash\<close> keeps a
  32-bit integer (the sum stays below \<open>2^53\<close>, so the double is exact before the
  conversion). The result is the absolute value in hexadecimal, padded to 64 digits.
\<close>

fun hashLoop :: "32 word \<Rightarrow> string \<Rightarrow> 32 word" where
  "hashLoop h [] = h"
| "hashLoop h (c # cs) = hashLoop ((push_bit 5 h - h) + of_nat (of_char c)) cs"

definition simpleHash :: "string \<Rightarrow> string" where
  "simpleHash data = padStart 64 (CHR ''0'') (natToString 16 (nat \<bar>sint (hashLoop 0 data)\<bar>))"

text \<open>
  \<open>updateStateRoot\<close> sorts the entries by address with \<open>localeCompare\<close>, renders each
  as \<open>address:balance:nonce\<close> and joins them with \<open>|\<close>. \<open>Array.prototype.sort\<close> is
  stable. The model sorts by the order of \<open>string\<close>, which compares code units. This
  is the order of \<open>localeCompare\<close> in the root collation on keys made of digits and
  lower-case letters, as lower-cased hexadecimal addresses are; on other keys the two
  orders differ, and the theorems on the root are stated for plain keys.
\<close>

definition renderAccount :: "AccountState list \<Rightarrow> string \<times> ref \<Rightarrow> string" where
  "renderAccount h e =
     fst e @ '':'' @ bigintToString (balance (h ! snd e)) @ '':'' @ bigintToString (nonce (h ! snd e))"

definition accountData :: "StateManager \<Rightarrow> string" where
  "accountData s = join ''|'' (map (renderAccount (heap s)) (sort_key fst (accounts s)))"

definition updateStateRoot :: "StateManager \<Rightarrow> StateManager" where
  "updateStateRoot s = s\<lparr>currentStateRoot := ''0x'' @ simpleHash (accountData s)\<rparr>"

definition getStateRoot :: "StateManager \<Rightarrow> string" where
  "getStateRoot s = currentStateRoot s"

subsection \<open>Reads and writes\<close>

definition genesisAccounts :: "(string \<times> int \<times> int) list" where
  "genesisAccounts =
     [(''0x1234567890123456789012345678901234567890'', 1000000000000000000000000000, 0),
      (''0x2345678901234567890123456789012345678901'', 500000000000000000000000000, 0),
      (''0x3456789012345678901234567890123456789012'', 100000000000000000000000000, 0)]"

fun setGenesis :: "StateManager \<Rightarrow> (string \<times> int \<times> int) list \<Rightarrow> StateManager" where
  "setGenesis s [] = s"
| "setGenesis s ((a, b, n) # rest) =
     (let (r, h) = alloc (heap s) \<lparr>balance = b, nonce = n\<rparr>
      in setGenesis (s\<lparr>heap := h, accounts := AList.update (toLowerCase a) r (accounts s)\<rparr>) rest)"

definition initializeGenesisState :: "StateManager \<Rightarrow> StateManager" where
  "initializeGenesisState s = setGenesis s genesisAccounts"

text \<open>The constructor, and \<open>initialize()\<close> which also computes the root.\<close>

definition newStateManager :: StateManager where
  "newStateManager = initializeGenesisState emptyState"

definition initialize :: "StateManager \<Rightarrow> StateManager" where
  "initialize s = updateStateRoot (initializeGenesisState s)"

definition getAccount :: "StateManager \<Rightarrow> string \<Rightarrow> AccountState option" where
  "getAccount s address = map_option (\<lambda>r. heap s ! r) (map_of (accounts s) (toLowerCase address))"

definition getBalance :: "StateManager \<Rightarrow> string \<Rightarrow> int" where
  "getBalance s address =
     (case map_of (accounts s) (toLowerCase address) of
        Some r \<Rightarrow> balance (heap s ! r)
      | None \<Rightarrow> 0)"

definition getNonce :: "StateManager \<Rightarrow> string \<Rightarrow> int" where
  "getNonce s address =
     (case map_of (accounts s) (toLowerCase address) of
        Some r \<Rightarrow> nonce (heap s ! r)
      | None \<Rightarrow> 0)"

definition setBalance :: "StateManager \<Rightarrow> string \<Rightarrow> int \<Rightarrow> StateManager" where
  "setBalance s address b =
     (let normalizedAddress = toLowerCase address;
          (account, h) = getOrFresh s normalizedAddress;
          h1 = modify h account (\<lambda>a. a\<lparr>balance := b\<rparr>)
      in updateStateRoot
           (s\<lparr>heap := h1, accounts := AList.update normalizedAddress account (accounts s)\<rparr>))"

definition incrementNonce :: "StateManager \<Rightarrow> string \<Rightarrow> StateManager" where
  "incrementNonce s address =
     (let normalizedAddress = toLowerCase address;
          (account, h) = getOrFresh s normalizedAddress;
          h1 = modify h account (\<lambda>a. a\<lparr>nonce := nonce a + 1\<rparr>)
      in updateStateRoot
           (s\<lparr>heap := h1, accounts := AList.update normalizedAddress account (accounts s)\<rparr>))"

text \<open>
  \<open>transfer\<close>: both objects are fetched first, then debited and credited in turn;
  when sender and recipient are the same address they are the same object.
\<close>

definition transfer :: "StateManager \<Rightarrow> string \<Rightarrow> string \<Rightarrow> int \<Rightarrow> bool \<times> StateManager" where
  "transfer s from to amount =
     (let fromAddress = toLowerCase from;
          toAddress = toLowerCase to
      in case map_of (accounts s) fromAddress of
           None \<Rightarrow> (False, s)
         | Some fromAccount \<Rightarrow>
             if balance (heap s ! fromAccount) < amount then (False, s)
             else
               let (toAccount, h) = getOrFresh s toAddress;
                   h1 = modify h fromAccount (\<lambda>a. a\<lparr>balance := balance a - amount\<rparr>);
                   h2 = modify h1 toAccount (\<lambda>a. a\<lparr>balance := balance a + amount\<rparr>);
                   m1 = AList.update fromAddress fromAccount (accounts s);
                   m2 = AList.update toAddress toAccount m1
               in (True, updateStateRoot (s\<lparr>heap := h2, accounts := m2\<rparr>)))"

text \<open>
  \<open>processTransaction\<close> returns a boolean. Each \<open>return false\<close> of the source is a
  constructor of \<open>rejection\<close> here, in the order of the source, so that a theorem can
  say which check refused; \<open>succeeded\<close> is the boolean the caller sees. The first
  statement of the \<open>try\<close> block is \<open>transaction.from.toLowerCase()\<close>: with an undefined
  sender it raises a TypeError, and the \<open>catch\<close> block returns \<open>false\<close>
  (\<open>CaughtTypeError\<close>).
\<close>

datatype rejection =
  CaughtTypeError | UnknownSender | NonceMismatch | InsufficientFunds | TransferFailed

definition succeeded :: "rejection + unit \<Rightarrow> bool" where
  "succeeded r = (case r of Inl _ \<Rightarrow> False | Inr _ \<Rightarrow> True)"

definition processTransaction :: "StateManager \<Rightarrow> Transaction \<Rightarrow> (rejection + unit) \<times> StateManager" where
  "processTransaction s transaction =
     (case tx_from transaction of
        None \<Rightarrow> (Inl CaughtTypeError, s)
      | Some sender \<Rightarrow>
     (let from = toLowerCase sender;
          to = map_option toLowerCase (tx_to transaction)
      in case map_of (accounts s) from of
           None \<Rightarrow> (Inl UnknownSender, s)
         | Some fromAccount \<Rightarrow>
             if nonce (heap s ! fromAccount) \<noteq> tx_nonce transaction then (Inl NonceMismatch, s)
             else
               let gasCost = gasPrice transaction * gasLimit transaction;
                   totalCost = tx_value transaction + gasCost
               in if balance (heap s ! fromAccount) < totalCost then (Inl InsufficientFunds, s)
                  else
                    let (success, s1) =
                          (if truthy to \<and> tx_value transaction > 0
                           then transfer s from (the to) (tx_value transaction)
                           else (True, s))
                    in if \<not> success then (Inl TransferFailed, s1)
                       else
                         let h1 = modify (heap s1) fromAccount (\<lambda>a. a\<lparr>balance := balance a - gasCost\<rparr>);
                             h2 = modify h1 fromAccount (\<lambda>a. a\<lparr>nonce := nonce a + 1\<rparr>)
                         in (Inr (),
                             updateStateRoot
                               (s1\<lparr>heap := h2,
                                   accounts := AList.update from fromAccount (accounts s1)\<rparr>))))"

text \<open>
  \<open>createSnapshot\<close> copies the map and the stored root, appends the snapshot to the
  list and keeps the last 100. \<open>restoreSnapshot\<close> puts a copy of the snapshot's map
  and the snapshot's root back; it does not recompute the root.
\<close>

definition createSnapshot :: "StateManager \<Rightarrow> nat \<Rightarrow> StateSnapshot \<times> StateManager" where
  "createSnapshot s now =
     (let snapshot = \<lparr>snap_accounts = accounts s, snap_stateRoot = currentStateRoot s,
                       snap_timestamp = now\<rparr>;
          ss = snapshots s @ [snapshot]
      in (snapshot, s\<lparr>snapshots := (if length ss > 100 then tl ss else ss)\<rparr>))"

definition restoreSnapshot :: "StateManager \<Rightarrow> StateSnapshot \<Rightarrow> StateManager" where
  "restoreSnapshot s snapshot =
     s\<lparr>accounts := snap_accounts snapshot, currentStateRoot := snap_stateRoot snapshot\<rparr>"

text \<open>
  The static constructors of \<open>Transaction\<close>, with their default gas price (5 Gwei) and
  gas limits and the placeholder signature. The hash is the one the constructor
  computes; it is a parameter here. Both take an argument \<open>from\<close> and do not use it:
  the transaction they build has no sender. \<open>withSender\<close> is the same transaction with
  the property \<open>from\<close> attached by the caller.
\<close>

definition createTransfer :: "string \<Rightarrow> string \<Rightarrow> string \<Rightarrow> int \<Rightarrow> int \<Rightarrow> Transaction" where
  "createTransfer h from to v n =
     \<lparr>tx_nonce = n, gasPrice = 5000000000, gasLimit = 21000, tx_from = None, tx_to = Some to,
      tx_value = v, tx_data = ''0x'', tx_v = 27,
      tx_r = ''0x'' @ replicate 64 (CHR ''0''), tx_s = ''0x'' @ replicate 64 (CHR ''0''),
      tx_hash = h\<rparr>"

definition createContractDeployment :: "string \<Rightarrow> string \<Rightarrow> string \<Rightarrow> int \<Rightarrow> int \<Rightarrow> Transaction" where
  "createContractDeployment h from bytecode v n =
     \<lparr>tx_nonce = n, gasPrice = 5000000000, gasLimit = 2000000, tx_from = None, tx_to = None,
      tx_value = v, tx_data = bytecode, tx_v = 27,
      tx_r = ''0x'' @ replicate 64 (CHR ''0''), tx_s = ''0x'' @ replicate 64 (CHR ''0''),
      tx_hash = h\<rparr>"

definition withSender :: "string \<Rightarrow> Transaction \<Rightarrow> Transaction" where
  "withSender from t = t\<lparr>tx_from := Some from\<rparr>"

subsection \<open>Well-formed stores and what an address maps to\<close>

text \<open>
  Every operation of \<open>StateManager\<close> gives each address an object of its own, inside
  the store: no two addresses share a reference. \<open>lookup\<close> is the account an
  (already lower-cased) address maps to; \<open>ensure\<close> is the \<open>get(k) || fresh\<close> followed
  by \<open>set(k, object)\<close> that every writer performs.
\<close>

definition wellFormed :: "StateManager \<Rightarrow> bool" where
  "wellFormed s = (distinct (map snd (accounts s)) \<and> list_all (\<lambda>e. snd e < length (heap s)) (accounts s))"

definition lookup :: "StateManager \<Rightarrow> string \<Rightarrow> AccountState option" where
  "lookup s k = map_option (\<lambda>r. heap s ! r) (map_of (accounts s) k)"

definition ensure :: "StateManager \<Rightarrow> string \<Rightarrow> StateManager" where
  "ensure s k = (let (r, h) = getOrFresh s k in s\<lparr>heap := h, accounts := AList.update k r (accounts s)\<rparr>)"

text \<open>
  The amount \<open>processTransaction\<close> moves: the value, when there is a non-empty
  recipient and the value is positive; nothing otherwise.
\<close>

definition transferred :: "Transaction \<Rightarrow> int" where
  "transferred t = (if truthy (tx_to t) \<and> tx_value t > 0 then tx_value t else 0)"

definition names_recipient :: "Transaction \<Rightarrow> string \<Rightarrow> bool" where
  "names_recipient t a = (case tx_to t of None \<Rightarrow> False | Some r \<Rightarrow> toLowerCase r = toLowerCase a)"

subsection \<open>Sample transactions on the genesis state\<close>

definition genesis1 :: string where
  "genesis1 = ''0x1234567890123456789012345678901234567890''"

definition genesis2 :: string where
  "genesis2 = ''0x2345678901234567890123456789012345678901''"

text \<open>
  A transfer of 5 from the first genesis account to the second, as
  \<open>Transaction.createTransfer\<close> builds it.
\<close>

definition tx0 :: Transaction where
  "tx0 = createTransfer ''a1'' genesis1 genesis2 5 0"

text \<open>
  A contract deployment by the first genesis account that carries a value of 5, as
  \<open>Transaction.createContractDeployment\<close> builds it.
\<close>

definition txC :: Transaction where
  "txC = createContractDeployment ''c1'' genesis1 ''0x6080'' 5 0"

text \<open>A transfer with the wrong nonce that also costs more than the sender owns.\<close>

definition txBad :: Transaction where
  "txBad = createTransfer ''b1'' genesis1 genesis2 2000000000000000000000000000 7"

subsection \<open>Sequences of account mutations\<close>

text \<open>
  The operations of \<open>StateManager\<close> that change its state, as data, and a run of them
  from a state. \<open>transfer\<close>, \<open>processTransaction\<close> and \<open>createSnapshot\<close> contribute
  the state they leave. \<open>restores\<close> tells the \<open>restoreSnapshot\<close> steps apart, and a run
  is \<open>restoreFree\<close> when it has none.
\<close>

datatype mutation =
    SetBalance string int
  | IncrementNonce string
  | Transfer string string int
  | ProcessTransaction Transaction
  | CreateSnapshot nat
  | RestoreSnapshot StateSnapshot

fun apply_mutation :: "StateManager \<Rightarrow> mutation \<Rightarrow> StateManager" where
  "apply_mutation s (SetBalance a b) = setBalance s a b"
| "apply_mutation s (IncrementNonce a) = incrementNonce s a"
| "apply_mutation s (Transfer f t v) = snd (transfer s f t v)"
| "apply_mutation s (ProcessTransaction t) = snd (processTransaction s t)"
| "apply_mutation s (CreateSnapshot now) = snd (createSnapshot s now)"
| "apply_mutation s (RestoreSnapshot snapshot) = restoreSnapshot s snapshot"

fun restores :: "mutation \<Rightarrow> bool" where
  "restores (RestoreSnapshot snapshot) = True"
| "restores m = False"

definition restoreFree :: "mutation list \<Rightarrow> bool" where
  "restoreFree ms = list_all (\<lambda>m. \<not> restores m) ms"

definition run :: "StateManager \<Rightarrow> mutation list \<Rightarrow> StateManager" where
  "run s ms = foldl apply_mutation s ms"

text \<open>
  \<open>rootOf\<close> is the root \<open>updateStateRoot\<close> computes for a state. A state is
  \<open>consistent\<close> when its keys are distinct lower-cased addresses, as \<open>Map.set\<close> on
  \<open>address.toLowerCase()\<close> leaves them, and the stored root is the root of its accounts.
  \<open>renderKey\<close> renders the entry of an address from what the address maps to.
  The keys of a state are plain when they are made of digits and lower-case letters, as
  lower-cased hexadecimal addresses are: on such keys \<open>localeCompare\<close>, in the root
  collation, orders as the code units do.
\<close>


definition rootOf :: "StateManager \<Rightarrow> string" where
  "rootOf s = ''0x'' @ simpleHash (accountData s)"

definition keys_ok :: "(string \<times> ref) list \<Rightarrow> bool" where
  "keys_ok m = (distinct (map fst m) \<and> list_all (\<lambda>k. toLowerCase k = k) (map fst m))"

definition consistent :: "StateManager \<Rightarrow> bool" where
  "consistent s = (keys_ok (accounts s) \<and> currentStateRoot s = rootOf s)"

definition plainChar :: "char \<Rightarrow> bool" where
  "plainChar c =
     (let n = (of_char c :: nat) in (48 \<le> n \<and> n \<le> 57) \<or> (97 \<le> n \<and> n \<le> 122))"

definition plainKeys :: "StateManager \<Rightarrow> bool" where
  "plainKeys s = list_all (\<lambda>e. list_all plainChar (fst e)) (accounts s)"

definition renderKey :: "StateManager \<Rightarrow> string \<Rightarrow> string" where
  "renderKey s k = (let a = the (lookup s k) in k @ '':'' @ bigintToString (balance a) @ '':'' @ bigintToString (nonce a))"

text \<open>Two further addresses (the fourth and fifth validator of \<open>Chain.selectValidator\<close>).\<close>


definition validator4 :: string where "validator4 = ''0x4567890123456789012345678901234567890123''"
definition validator5 :: string where "validator5 = ''0x5678901234567890123456789012345678901234''"

text \<open>
  The state after \<open>initialize()\<close>, and a snapshot of it taken at time 0.
\<close>

definition initialState :: StateManager where
  "initialState = initialize newStateManager"

definition initialSnapshot :: StateSnapshot where
  "initialSnapshot = fst (createSnapshot initialState 0)"

section \<open>Transaction: structural validation\<close>

text \<open>
  \<open>isValidAddress\<close> tests \<open>/^0x[a-fA-F0-9]{40}$/\<close>. \<open>validate\<close> follows the four
  checks of the source in their order.
\<close>

definition isHexDigit :: "char \<Rightarrow> bool" where
  "isHexDigit c =
     (let n = (of_char c :: nat)
      in (48 \<le> n \<and> n \<le> 57) \<or> (65 \<le> n \<and> n \<le> 70) \<or> (97 \<le> n \<and> n \<le> 102))"

definition isValidAddress :: "string \<Rightarrow> bool" where
  "isValidAddress a = (length a = 42 \<and> take 2 a = ''0x'' \<and> list_all isHexDigit (drop 2 a))"

definition startsWith :: "string \<Rightarrow> string \<Rightarrow> bool" where
  "startsWith s p = (take (length p) s = p)"

definition validate :: "Transaction \<Rightarrow> bool" where
  "validate t =
     (if gasLimit t \<le> 0 \<or> gasPrice t < 0 \<or> tx_value t < 0 \<or> tx_nonce t < 0 then False
      else if tx_r t = [] \<or> tx_s t = [] \<or> tx_v t < 0 then False
      else if tx_data t \<noteq> [] \<and> \<not> startsWith (tx_data t) ''0x'' then False
      else if truthy (tx_to t) \<and> \<not> isValidAddress (the (tx_to t)) then False
      else True)"

section \<open>TransactionPool\<close>

text \<open>
  \<open>pendingTransactions\<close> is a \<open>Map<string, Transaction>\<close> keyed by transaction hash:
  an association list in insertion order. \<open>queuedTransactions\<close> is never written and
  is left out.
\<close>

record TransactionPool =
  pendingTransactions :: "(string \<times> Transaction) list"

definition MAX_POOL_SIZE :: nat where
  "MAX_POOL_SIZE = 10000"

definition emptyPool :: TransactionPool where
  "emptyPool = \<lparr>pendingTransactions = []\<rparr>"

text \<open>
  \<open>parseFloat(tx.gasPrice)\<close> turns the bigint into a double. It is exact for gas prices
  of magnitude up to \<open>2^53\<close>, and the model is the identity; \<open>exactPrices\<close> says that
  a pool is in that range.
\<close>

definition parseFloat :: "int \<Rightarrow> int" where
  "parseFloat g = g"

definition exactPrices :: "TransactionPool \<Rightarrow> bool" where
  "exactPrices p = list_all (\<lambda>e. \<bar>gasPrice (snd e)\<bar> \<le> 2 ^ 53) (pendingTransactions p)"

text \<open>
  \<open>evictLowestFeeTransactions\<close>: a stable ascending sort of the entries by gas price,
  then the first \<open>Math.floor(length * 0.1)\<close> of them are deleted by hash. The double
  product \<open>length * 0.1\<close> is at least \<open>length / 10\<close> and below the next integer, so
  its floor is \<open>length div 10\<close>.
\<close>

definition evictLowestFeeTransactions :: "TransactionPool \<Rightarrow> TransactionPool" where
  "evictLowestFeeTransactions p =
     (let transactions = sort_key (\<lambda>e. parseFloat (gasPrice (snd e))) (pendingTransactions p);
          removeCount = length transactions div 10
      in p\<lparr>pendingTransactions :=
            foldl (\<lambda>m e. AList.delete (fst e) m) (pendingTransactions p) (take removeCount transactions)\<rparr>)"

definition hasTransaction :: "TransactionPool \<Rightarrow> string \<Rightarrow> bool" where
  "hasTransaction p h = (map_of (pendingTransactions p) h \<noteq> None)"

definition getSize :: "TransactionPool \<Rightarrow> nat" where
  "getSize p = length (pendingTransactions p)"

definition addTransaction :: "TransactionPool \<Rightarrow> Transaction \<Rightarrow> bool \<times> TransactionPool" where
  "addTransaction p transaction =
     (if \<not> validate transaction then (False, p)
      else if hasTransaction p (tx_hash transaction) then (False, p)
      else
        let p1 = (if getSize p \<ge> MAX_POOL_SIZE then evictLowestFeeTransactions p else p)
        in (True, p1\<lparr>pendingTransactions :=
                     AList.update (tx_hash transaction) transaction (pendingTransactions p1)\<rparr>))"

definition removeTransaction :: "TransactionPool \<Rightarrow> string \<Rightarrow> bool \<times> TransactionPool" where
  "removeTransaction p h =
     (hasTransaction p h, p\<lparr>pendingTransactions := AList.delete h (pendingTransactions p)\<rparr>)"

text \<open>
  \<open>getTransactionsByAddress\<close> loops over the pending transactions and pushes those
  whose sender is the address, or whose recipient is present and is the address. The
  test starts with \<open>tx.from.toLowerCase()\<close>, which raises on a transaction with no
  sender; nothing catches it. \<open>getPendingNonce\<close> folds the maximum nonce over the list
  returned, starting from \<open>0n\<close>.
\<close>

fun poolScan :: "string \<Rightarrow> Transaction list \<Rightarrow> Transaction list \<Rightarrow> error + Transaction list" where
  "poolScan address acc [] = Inr acc"
| "poolScan address acc (tx # txs) =
     (case tx_from tx of
        None \<Rightarrow> Inl TypeError
      | Some from \<Rightarrow>
          if toLowerCase from = toLowerCase address \<or>
             (truthy (tx_to tx) \<and> toLowerCase (the (tx_to tx)) = toLowerCase address)
          then poolScan address (acc @ [tx]) txs
          else poolScan address acc txs)"

definition poolTransactionsByAddress :: "TransactionPool \<Rightarrow> string \<Rightarrow> error + Transaction list" where
  "poolTransactionsByAddress p address = poolScan address [] (map snd (pendingTransactions p))"

definition getPendingNonce :: "TransactionPool \<Rightarrow> string \<Rightarrow> error + int" where
  "getPendingNonce p address =
     (case poolTransactionsByAddress p address of
        Inl e \<Rightarrow> Inl e
      | Inr transactions \<Rightarrow>
          Inr (if length transactions = 0 then 0
               else foldl (\<lambda>mx tx. if tx_nonce tx > mx then tx_nonce tx else mx) 0 transactions + 1))"

text \<open>
  What the specification asks of \<open>pendingNonce\<close>: the transactions an address sent,
  and the highest nonce among them plus one.
\<close>

definition sentBy :: "TransactionPool \<Rightarrow> string \<Rightarrow> Transaction list" where
  "sentBy p address =
     filter (\<lambda>tx. case tx_from tx of None \<Rightarrow> False
                   | Some from \<Rightarrow> toLowerCase from = toLowerCase address)
            (map snd (pendingTransactions p))"

definition specPendingNonce :: "TransactionPool \<Rightarrow> string \<Rightarrow> int" where
  "specPendingNonce p address = Max (set (map tx_nonce (sentBy p address))) + 1"

text \<open>
  A pool with two pending transfers, built by \<open>createTransfer\<close> and admitted by
  \<open>addTransaction\<close>: one created for the third genesis account as sender, with nonce 0,
  to the first; one created for the second genesis account as sender, with nonce 7, to
  the third. \<open>poolTwoSenders\<close> is the pool of the same two transfers with their senders
  attached.
\<close>

definition genesis3 :: string where
  "genesis3 = ''0x3456789012345678901234567890123456789012''"

definition txOut :: Transaction where
  "txOut = createTransfer ''d1'' genesis3 genesis1 10 0"

definition txIn :: Transaction where
  "txIn = createTransfer ''d2'' genesis2 genesis3 10 7"

definition poolTwo :: TransactionPool where
  "poolTwo = snd (addTransaction (snd (addTransaction emptyPool txOut)) txIn)"

definition poolTwoSenders :: TransactionPool where
  "poolTwoSenders =
     snd (addTransaction (snd (addTransaction emptyPool (withSender genesis3 txOut)))
            (withSender genesis2 txIn))"

text \<open>
  The sort key of an entry, and the entries an eviction removes: the first tenth of the
  stable ascending sort of the pool by gas price.
\<close>

definition price :: "string \<times> Transaction \<Rightarrow> int" where
  "price e = parseFloat (gasPrice (snd e))"

definition evicted :: "TransactionPool \<Rightarrow> (string \<times> Transaction) list" where
  "evicted p = take (getSize p div 10) (sort_key price (pendingTransactions p))"

text \<open>
  Pools of \<open>MAX_POOL_SIZE\<close> valid transfers for the eviction scenarios. The hash of
  the \<open>i\<close>-th transaction stands for its keccak256 digest: 64 hexadecimal digits,
  different for different \<open>i\<close>. \<open>risingPool\<close> has the gas prices 1, 2, ...,
  \<open>MAX_POOL_SIZE\<close> in insertion order; \<open>flatPool\<close> and \<open>flatPoolRev\<close> hold the same
  transactions, all of gas price 1, inserted in opposite orders. \<open>admitAll\<close> submits a
  list of transactions one after the other.
\<close>

definition hashOf :: "nat \<Rightarrow> string" where
  "hashOf i = padStart 64 (CHR ''0'') (natToString 16 i)"

definition poolTx :: "nat \<Rightarrow> int \<Rightarrow> Transaction" where
  "poolTx i g = (createTransfer (hashOf i) genesis1 genesis2 1 (int i))\<lparr>gasPrice := g\<rparr>"

definition poolEntry :: "(nat \<Rightarrow> int) \<Rightarrow> nat \<Rightarrow> string \<times> Transaction" where
  "poolEntry g i = (hashOf i, poolTx i (g i))"

definition risingPool :: TransactionPool where
  "risingPool = \<lparr>pendingTransactions = map (poolEntry (\<lambda>i. int i + 1)) [0..<MAX_POOL_SIZE]\<rparr>"

definition flatPool :: TransactionPool where
  "flatPool = \<lparr>pendingTransactions = map (poolEntry (\<lambda>i. 1)) [0..<MAX_POOL_SIZE]\<rparr>"

definition flatPoolRev :: TransactionPool where
  "flatPoolRev = \<lparr>pendingTransactions = rev (map (poolEntry (\<lambda>i. 1)) [0..<MAX_POOL_SIZE])\<rparr>"

definition nextTx :: Transaction where
  "nextTx = poolTx MAX_POOL_SIZE (int MAX_POOL_SIZE + 1)"

definition admitAll :: "TransactionPool \<Rightarrow> Transaction list \<Rightarrow> TransactionPool" where
  "admitAll p ts = foldl (\<lambda>q t. snd (addTransaction q t)) p ts"

text \<open>Reading a hexadecimal string back, to tell the hashes apart.\<close>

definition digitVal :: "char \<Rightarrow> nat" where
  "digitVal c = (let n = (of_char c :: nat) in if n < 58 then n - 48 else n - 87)"

definition parseNat :: "nat \<Rightarrow> string \<Rightarrow> nat" where
  "parseNat radix s = foldl (\<lambda>a c. a * radix + digitVal c) 0 s"

section \<open>Chain: queries and reorganization\<close>

text \<open>
  The part of \<open>Chain\<close> the queries read: the blocks by height
  (\<open>Map<number, Block>\<close>), the current height, and the warnings written to the
  logger. Of a block, its hash, its number and its transactions.
\<close>

record Block =
  block_hash :: string
  block_number :: int
  transactions :: "Transaction list"

record Chain =
  blocksByNumber :: "nat \<rightharpoonup> Block"
  currentHeight :: nat
  warnings :: "string list"

text \<open>
  \<open>Chain.getTransactionsByAddress\<close>. The inner loop over the transactions of one
  block: a transaction matches when \<open>tx.from.toLowerCase()\<close> is the address, or when
  \<open>tx.to.toLowerCase()\<close> is; the second test is evaluated only when the first is false.
  Calling \<open>toLowerCase\<close> on an undefined sender raises, and so does calling it on a
  \<open>null\<close> recipient. A match is pushed, and the loop breaks when the limit is reached.
\<close>

fun scanBlock :: "string \<Rightarrow> nat \<Rightarrow> Transaction list \<Rightarrow> Transaction list \<Rightarrow> error + Transaction list" where
  "scanBlock address limit acc [] = Inr acc"
| "scanBlock address limit acc (tx # txs) =
     (case tx_from tx of
        None \<Rightarrow> Inl TypeError
      | Some from \<Rightarrow>
          if toLowerCase from = toLowerCase address
          then (if length (acc @ [tx]) \<ge> limit then Inr (acc @ [tx])
                else scanBlock address limit (acc @ [tx]) txs)
          else case tx_to tx of
                 None \<Rightarrow> Inl TypeError
               | Some to \<Rightarrow>
                   if toLowerCase to = toLowerCase address
                   then (if length (acc @ [tx]) \<ge> limit then Inr (acc @ [tx])
                         else scanBlock address limit (acc @ [tx]) txs)
                   else scanBlock address limit acc txs)"

text \<open>
  The outer loop: \<open>for (i = currentHeight; i >= 0 && transactions.length < limit; i--)\<close>.
\<close>

definition scanHeight :: "Chain \<Rightarrow> string \<Rightarrow> nat \<Rightarrow> Transaction list \<Rightarrow> nat \<Rightarrow> error + Transaction list" where
  "scanHeight c address limit acc i =
     (case blocksByNumber c i of
        None \<Rightarrow> Inr acc
      | Some block \<Rightarrow> scanBlock address limit acc (transactions block))"

fun scanFrom :: "Chain \<Rightarrow> string \<Rightarrow> nat \<Rightarrow> Transaction list \<Rightarrow> nat \<Rightarrow> error + Transaction list" where
  "scanFrom c address limit acc 0 =
     (if length acc < limit then scanHeight c address limit acc 0 else Inr acc)"
| "scanFrom c address limit acc (Suc i) =
     (if length acc < limit
      then (case scanHeight c address limit acc (Suc i) of
              Inl e \<Rightarrow> Inl e
            | Inr acc' \<Rightarrow> scanFrom c address limit acc' i)
      else Inr acc)"

definition getTransactionsByAddress :: "Chain \<Rightarrow> string \<Rightarrow> nat \<Rightarrow> error + Transaction list" where
  "getTransactionsByAddress c address limit = scanFrom c address limit [] (currentHeight c)"

text \<open>\<open>Chain.reorg\<close>: a warning is logged and \<open>false\<close> is returned.\<close>

definition reorg :: "Chain \<Rightarrow> string \<Rightarrow> (error + bool) \<times> Chain" where
  "reorg c targetHash =
     (Inr False, c\<lparr>warnings := warnings c @ [''Blockchain reorganization requested'']\<rparr>)"

text \<open>
  The genesis block has no transactions. \<open>chainOne\<close> is the chain after one block has
  been added on top of it, holding the contract deployment \<open>txC\<close> (a transaction that
  passes \<open>validate\<close>, as \<open>addBlock\<close> requires of every transaction of a block).
  \<open>chainOneSender\<close> is the same chain with the sender attached to the deployment.
\<close>

definition genesisBlock :: Block where
  "genesisBlock = \<lparr>block_hash = ''genesis'', block_number = 0, transactions = []\<rparr>"

definition genesisChain :: Chain where
  "genesisChain = \<lparr>blocksByNumber = [0 \<mapsto> genesisBlock], currentHeight = 0, warnings = []\<rparr>"

definition blockOne :: Block where
  "blockOne = \<lparr>block_hash = ''block1'', block_number = 1, transactions = [txC]\<rparr>"

definition chainOne :: Chain where
  "chainOne = \<lparr>blocksByNumber = [0 \<mapsto> genesisBlock, 1 \<mapsto> blockOne], currentHeight = 1, warnings = []\<rparr>"

definition blockOneSender :: Block where
  "blockOneSender =
     \<lparr>block_hash = ''block1'', block_number = 1, transactions = [withSender genesis1 txC]\<rparr>"

definition chainOneSender :: Chain where
  "chainOneSender =
     \<lparr>blocksByNumber = [0 \<mapsto> genesisBlock, 1 \<mapsto> blockOneSender], currentHeight = 1,
      warnings = []\<rparr>"

section \<open>PoSAConsensus: rounds, votes and the timeout\<close>

text \<open>
  A vote is \<open>approve\<close> or \<open>reject\<close>; a round is \<open>pending\<close>, \<open>approved\<close>, \<open>rejected\<close> or
  \<open>timeout\<close>. \<open>Date.now()\<close> is the argument \<open>now\<close> of each operation.
\<close>

datatype vote_kind = Approve | Reject

datatype round_status = Pending | Approved | Rejected | Timeout

record ConsensusVote =
  v_blockHash :: string
  v_validator :: string
  v_vote :: vote_kind
  v_reasoning :: string
  v_timestamp :: nat
  v_signature :: string

record ConsensusRound =
  blockHash :: string
  proposer :: string
  startTime :: nat
  votes :: "ConsensusVote list"
  status :: round_status
  finalizedAt :: "nat option"

record PoSAConfig =
  validatorCount :: int
  requiredVotes :: int
  roundTimeout :: nat
  blockTime :: nat

datatype event =
    RoundStarted "ConsensusRound option"
  | VoteReceived ConsensusVote
  | ConsensusReached ConsensusRound bool

text \<open>
  The state of \<open>PoSAConsensus\<close>. \<open>emitted\<close> collects the events in the order of the
  \<open>emit\<close> calls. \<open>timers\<close> holds the timeouts that \<open>setTimeout\<close> has scheduled and
  that have not fired, oldest first; each is labelled with the block hash of the
  proposal that scheduled it. The source keeps no handle of a timer and never clears
  one. All timers have the same delay, so they fire in the order they were set.
\<close>

record PoSAConsensus =
  currentRound :: "ConsensusRound option"
  consensusHistory :: "ConsensusRound list"
  config :: PoSAConfig
  isActive :: bool
  timers :: "string list"
  emitted :: "event list"

definition newConsensus :: "PoSAConfig \<Rightarrow> PoSAConsensus" where
  "newConsensus cfg =
     \<lparr>currentRound = None, consensusHistory = [], config = cfg, isActive = False,
      timers = [], emitted = []\<rparr>"

definition initializeConsensus :: "PoSAConsensus \<Rightarrow> PoSAConsensus" where
  "initializeConsensus s = s\<lparr>isActive := True\<rparr>"

definition validateVoteSignature :: "ConsensusVote \<Rightarrow> bool" where
  "validateVoteSignature vote = (length (v_signature vote) > 0 \<and> length (v_validator vote) > 0)"

definition finalizeRound :: "PoSAConsensus \<Rightarrow> nat \<Rightarrow> round_status \<Rightarrow> PoSAConsensus" where
  "finalizeRound s now st =
     (case currentRound s of
        None \<Rightarrow> s
      | Some r \<Rightarrow>
          let r' = r\<lparr>status := st, finalizedAt := Some now\<rparr>;
              h = consensusHistory s @ [r'];
              h' = (if length h > 100 then tl h else h)
          in s\<lparr>consensusHistory := h',
               emitted := emitted s @ [ConsensusReached r' (st = Approved)],
               currentRound := None\<rparr>)"

definition checkConsensusStatus :: "PoSAConsensus \<Rightarrow> nat \<Rightarrow> PoSAConsensus" where
  "checkConsensusStatus s now =
     (case currentRound s of
        None \<Rightarrow> s
      | Some r \<Rightarrow>
          let approvalVotes = length (filter (\<lambda>v. v_vote v = Approve) (votes r));
              rejectionVotes = length (filter (\<lambda>v. v_vote v = Reject) (votes r));
              totalVotes = length (votes r)
          in if int approvalVotes \<ge> requiredVotes (config s) then finalizeRound s now Approved
             else if int rejectionVotes \<ge> requiredVotes (config s) then finalizeRound s now Rejected
             else if int totalVotes \<ge> validatorCount (config s)
                  then (if approvalVotes > rejectionVotes then finalizeRound s now Approved
                        else finalizeRound s now Rejected)
             else s)"

definition handleValidatorVote :: "PoSAConsensus \<Rightarrow> nat \<Rightarrow> ConsensusVote \<Rightarrow> PoSAConsensus" where
  "handleValidatorVote s now vote =
     (case currentRound s of
        None \<Rightarrow> s
      | Some r \<Rightarrow>
          if v_blockHash vote \<noteq> blockHash r then s
          else if find (\<lambda>v. v_validator v = v_validator vote) (votes r) \<noteq> None then s
          else if \<not> validateVoteSignature vote then s
          else checkConsensusStatus
                 (s\<lparr>currentRound := Some (r\<lparr>votes := votes r @ [vote]\<rparr>),
                    emitted := emitted s @ [VoteReceived vote]\<rparr>) now)"

definition handleRoundTimeout :: "PoSAConsensus \<Rightarrow> nat \<Rightarrow> PoSAConsensus" where
  "handleRoundTimeout s now =
     (case currentRound s of
        None \<Rightarrow> s
      | Some r \<Rightarrow> if status r \<noteq> Pending then s else finalizeRound s now Rejected)"

text \<open>
  \<open>proposeBlock\<close> opens the round, awaits \<open>requestValidatorVotes\<close>, then sets the
  timeout and emits \<open>roundStarted\<close>. The votes the validators emit while they are
  awaited are handled before the timeout is set: they are the argument \<open>arrived\<close>, each
  with its time.
\<close>

definition proposeBlock ::
  "PoSAConsensus \<Rightarrow> nat \<Rightarrow> string \<Rightarrow> string \<Rightarrow> (nat \<times> ConsensusVote) list \<Rightarrow> bool \<times> PoSAConsensus" where
  "proposeBlock s now hash prop arrived =
     (if \<not> isActive s then (False, s)
      else if currentRound s \<noteq> None then (False, s)
      else
        let s1 = s\<lparr>currentRound :=
                    Some \<lparr>blockHash = hash, proposer = prop, startTime = now, votes = [],
                          status = Pending, finalizedAt = None\<rparr>\<rparr>;
            s2 = foldl (\<lambda>q (t, v). handleValidatorVote q t v) s1 arrived;
            s3 = s2\<lparr>timers := timers s2 @ [hash]\<rparr>
        in (True, s3\<lparr>emitted := emitted s3 @ [RoundStarted (currentRound s3)]\<rparr>))"

text \<open>The oldest scheduled timeout fires: its callback is \<open>handleRoundTimeout\<close>.\<close>

definition fireTimer :: "PoSAConsensus \<Rightarrow> nat \<Rightarrow> PoSAConsensus" where
  "fireTimer s now =
     (case timers s of
        [] \<Rightarrow> s
      | t # ts \<Rightarrow> handleRoundTimeout (s\<lparr>timers := ts\<rparr>) now)"

text \<open>
  The counts of \<open>getConsensusStats\<close> over the last 50 rounds of the history: all
  rounds, the approved ones, and the ones whose status is \<open>timeout\<close>.
\<close>

definition recentRounds :: "PoSAConsensus \<Rightarrow> ConsensusRound list" where
  "recentRounds s = drop (length (consensusHistory s) - 50) (consensusHistory s)"

definition approvedRounds :: "PoSAConsensus \<Rightarrow> nat" where
  "approvedRounds s = length (filter (\<lambda>r. status r = Approved) (recentRounds s))"

definition timeoutRounds :: "PoSAConsensus \<Rightarrow> nat" where
  "timeoutRounds s = length (filter (\<lambda>r. status r = Timeout) (recentRounds s))"

text \<open>
  \<open>accepts\<close> says that a vote passes the checks of \<open>handleValidatorVote\<close>: a round is
  open, the vote is for its block, its validator has not voted in the round, and the
  signature check passes.
\<close>

definition accepts :: "PoSAConsensus \<Rightarrow> ConsensusVote \<Rightarrow> bool" where
  "accepts s vote =
     (case currentRound s of
        None \<Rightarrow> False
      | Some r \<Rightarrow> v_blockHash vote = blockHash r \<and>
                  find (\<lambda>v. v_validator v = v_validator vote) (votes r) = None \<and>
                  validateVoteSignature vote)"

text \<open>
  A committee of six with quorum four (the round timeout and block time in
  milliseconds), and the vote of a validator on a block.
\<close>

definition sixFour :: PoSAConfig where
  "sixFour = \<lparr>validatorCount = 6, requiredVotes = 4, roundTimeout = 30000, blockTime = 10000\<rparr>"

definition voteOf :: "string \<Rightarrow> string \<Rightarrow> vote_kind \<Rightarrow> ConsensusVote" where
  "voteOf hash who k =
     \<lparr>v_blockHash = hash, v_validator = who, v_vote = k, v_reasoning = ''ok'',
      v_timestamp = 0, v_signature = ''sig''\<rparr>"

definition started :: PoSAConsensus where
  "started = initializeConsensus (newConsensus sixFour)"

text \<open>
  Rounds of the scenarios below, on two block hashes. \<open>castAll\<close> delivers one vote of
  the same kind from each validator of a list, \<open>castEach\<close> a vote of its own kind from
  each. \<open>roundMixed\<close> is the round for \<open>blockA\<close> after three approvals and two
  rejections. \<open>roundA\<close> is the round opened for
  \<open>blockA\<close>; \<open>roundA1\<close> and \<open>roundA3\<close> have one and three approvals;
  \<open>roundA4\<close> is the state after the fourth approval; \<open>roundB\<close> is the next round,
  opened for \<open>blockB\<close> after that.
\<close>

definition blockA :: string where
  "blockA = ''a3f1c2d4e5b60718293a4b5c6d7e8f90a1b2c3d4e5f60718293a4b5c6d7e8f90''"

definition blockB :: string where
  "blockB = ''b7e2d3c4f5a60718293a4b5c6d7e8f90a1b2c3d4e5f60718293a4b5c6d7e8f91''"

definition castAll :: "PoSAConsensus \<Rightarrow> nat \<Rightarrow> string \<Rightarrow> vote_kind \<Rightarrow> string list \<Rightarrow> PoSAConsensus" where
  "castAll s now hash k who = foldl (\<lambda>q w. handleValidatorVote q now (voteOf hash w k)) s who"

definition roundA :: PoSAConsensus where
  "roundA = snd (proposeBlock started 0 blockA ''claude'' [])"

definition roundA1 :: PoSAConsensus where
  "roundA1 = castAll roundA 1 blockA Approve [''claude'']"

definition roundA3 :: PoSAConsensus where
  "roundA3 = castAll roundA 1 blockA Approve [''claude'', ''gpt'', ''grok'']"

definition roundA4 :: PoSAConsensus where
  "roundA4 = handleValidatorVote roundA3 2 (voteOf blockA ''stable'' Approve)"

definition castEach :: "PoSAConsensus \<Rightarrow> nat \<Rightarrow> string \<Rightarrow> (string \<times> vote_kind) list \<Rightarrow> PoSAConsensus" where
  "castEach s now hash ws = foldl (\<lambda>q (w, k). handleValidatorVote q now (voteOf hash w k)) s ws"

definition roundMixed :: PoSAConsensus where
  "roundMixed =
     castEach roundA 1 blockA
       [(''claude'', Approve), (''gpt'', Reject), (''grok'', Approve), (''stable'', Reject),
        (''perplex'', Approve)]"

definition roundB :: PoSAConsensus where
  "roundB = snd (proposeBlock roundA4 3 blockB ''gpt'' [])"

text \<open>
  A round \<open>r\<close> has been decided with status \<open>st\<close> at time \<open>now\<close>: no round is open,
  the last entry of the history is \<open>r\<close> with that status, and the last event is the
  \<open>consensusReached\<close> of it.
\<close>

definition decided :: "PoSAConsensus \<Rightarrow> ConsensusRound \<Rightarrow> nat \<Rightarrow> round_status \<Rightarrow> bool" where
  "decided s' r now st =
     (currentRound s' = None \<and> consensusHistory s' \<noteq> [] \<and>
      last (consensusHistory s') = r\<lparr>status := st, finalizedAt := Some now\<rparr> \<and>
      emitted s' \<noteq> [] \<and>
      last (emitted s') = ConsensusReached (r\<lparr>status := st, finalizedAt := Some now\<rparr>) (st = Approved))"


section \<open>Properties of StateManager\<close>

declare natToString.simps [simp del]

lemma lowerChar_idem: "lowerChar (lowerChar c) = lowerChar c"
  by (auto simp: lowerChar_def Let_def)

lemma toLowerCase_idem [simp]: "toLowerCase (toLowerCase s) = toLowerCase s"
  by (simp add: toLowerCase_def lowerChar_idem)

lemma updateStateRoot_proj [simp]:
  "heap (updateStateRoot s) = heap s" "accounts (updateStateRoot s) = accounts s"
  by (simp_all add: updateStateRoot_def)

lemma wellFormed_bound: "wellFormed s \<Longrightarrow> map_of (accounts s) k = Some r \<Longrightarrow> r < length (heap s)"
  by (auto simp: wellFormed_def list_all_iff dest!: map_of_SomeD)

lemma wellFormed_inj: "wellFormed s \<Longrightarrow> map_of (accounts s) k = Some r \<Longrightarrow> map_of (accounts s) k' = Some r \<Longrightarrow> k = k'"
proof -
  assume w: "wellFormed s" and a: "map_of (accounts s) k = Some r" and b: "map_of (accounts s) k' = Some r"
  from a b have "(k, r) \<in> set (accounts s)" "(k', r) \<in> set (accounts s)"
    by (auto dest: map_of_SomeD)
  moreover from w have "inj_on snd (set (accounts s))"
    by (simp add: wellFormed_def distinct_map)
  ultimately show ?thesis using inj_onD[of snd "set (accounts s)" "(k, r)" "(k', r)"] by simp
qed

lemma wellFormed_modify: "wellFormed s \<Longrightarrow> wellFormed (s\<lparr>heap := modify (heap s) r f\<rparr>)"
  by (simp add: wellFormed_def modify_def)

lemma lookup_modify:
  assumes "wellFormed s" "map_of (accounts s) k0 = Some r"
  shows "lookup (s\<lparr>heap := modify (heap s) r f\<rparr>) k = (if k = k0 then Some (f (heap s ! r)) else lookup s k)"
proof (cases "map_of (accounts s) k")
  case None
  with assms show ?thesis by (auto simp: lookup_def)
next
  case (Some r')
  show ?thesis
  proof (cases "k = k0")
    case True
    with assms Some wellFormed_bound[OF assms] show ?thesis by (simp add: lookup_def modify_def)
  next
    case False
    with wellFormed_inj[OF assms(1) Some, of k0] assms(2) have "r' \<noteq> r" by auto
    with Some False show ?thesis by (simp add: lookup_def modify_def)
  qed
qed

lemma update_fresh: "map_of al k = None \<Longrightarrow> AList.update k v al = al @ [(k, v)]"
  by (induct al) (auto split: if_splits)

lemma ensure_present: "map_of (accounts s) k = Some r \<Longrightarrow> ensure s k = s"
  by (simp add: ensure_def getOrFresh_def update_triv)

lemma ensure_absent: "map_of (accounts s) k = None \<Longrightarrow>
   ensure s k = s\<lparr>heap := heap s @ [\<lparr>balance = 0, nonce = 0\<rparr>], accounts := accounts s @ [(k, length (heap s))]\<rparr>"
  by (simp add: ensure_def getOrFresh_def alloc_def update_fresh)

lemma wellFormed_ensure: "wellFormed s \<Longrightarrow> wellFormed (ensure s k)"
proof (cases "map_of (accounts s) k")
  case None
  assume "wellFormed s"
  then show ?thesis
    by (auto simp: ensure_absent[OF None] wellFormed_def list_all_iff)
next
  case (Some r)
  assume "wellFormed s" then show ?thesis by (simp add: ensure_present[OF Some])
qed

lemma lookup_ensure:
  assumes "wellFormed s"
  shows "lookup (ensure s k0) k = (if k = k0 \<and> lookup s k0 = None then Some \<lparr>balance = 0, nonce = 0\<rparr> else lookup s k)"
proof (cases "map_of (accounts s) k0")
  case None
  show ?thesis
  proof (cases "map_of (accounts s) k")
    case N: None
    then show ?thesis using None by (auto simp: ensure_absent[OF None] lookup_def map_add_def)
  next
    case (Some r)
    with wellFormed_bound[OF assms Some] None show ?thesis
      by (auto simp: ensure_absent[OF None] lookup_def map_add_def nth_append)
  qed
next
  case (Some r)
  then show ?thesis by (auto simp: ensure_present[OF Some] lookup_def)
qed

lemma ensure_keeps: "map_of (accounts s) k = Some r \<Longrightarrow> map_of (accounts (ensure s k0)) k = Some r"
  by (cases "map_of (accounts s) k0") (auto simp: ensure_absent ensure_present map_add_def)

lemma ensure_has: "\<exists>r. map_of (accounts (ensure s k0)) k0 = Some r \<and> getOrFresh s k0 = (r, heap (ensure s k0))"
  by (cases "map_of (accounts s) k0") (auto simp: ensure_absent ensure_present getOrFresh_def alloc_def map_add_def)

lemma transfer_shape:
  assumes w: "wellFormed s" and f: "map_of (accounts s) (toLowerCase from) = Some rf"
    and b: "\<not> balance (heap s ! rf) < amount"
    and t: "map_of (accounts (ensure s (toLowerCase to))) (toLowerCase to) = Some rt"
  shows "transfer s from to amount =
     (True, updateStateRoot
        ((ensure s (toLowerCase to))
           \<lparr>heap := modify (modify (heap (ensure s (toLowerCase to))) rf
                       (\<lambda>a. a\<lparr>balance := balance a - amount\<rparr>)) rt
                       (\<lambda>a. a\<lparr>balance := balance a + amount\<rparr>)\<rparr>))"
proof -
  obtain r h where g: "getOrFresh s (toLowerCase to) = (r, h)"
    by (cases "getOrFresh s (toLowerCase to)")
  then have e: "ensure s (toLowerCase to) = s\<lparr>heap := h, accounts := AList.update (toLowerCase to) r (accounts s)\<rparr>"
    by (simp add: ensure_def)
  with t have [simp]: "r = rt" by (simp add: update_conv')
  show ?thesis
    using f b g by (auto simp: transfer_def Let_def update_triv e intro!: arg_cong[where f=updateStateRoot] StateManager.equality)
qed

lemma getBalance_lookup: "getBalance s a = (case lookup s (toLowerCase a) of Some acc \<Rightarrow> balance acc | None \<Rightarrow> 0)"
  by (simp add: getBalance_def lookup_def split: option.splits)

lemma getNonce_lookup: "getNonce s a = (case lookup s (toLowerCase a) of Some acc \<Rightarrow> nonce acc | None \<Rightarrow> 0)"
  by (simp add: getNonce_def lookup_def split: option.splits)

lemma lookup_updateStateRoot [simp]: "lookup (updateStateRoot s) k = lookup s k"
  by (simp add: lookup_def)

lemma wellFormed_updateStateRoot [simp]: "wellFormed (updateStateRoot s) = wellFormed s"
  by (simp add: wellFormed_def)

lemma transfer_effect:
  assumes w: "wellFormed s" and f: "map_of (accounts s) (toLowerCase from) = Some rf"
    and b: "\<not> balance (heap s ! rf) < amount"
  shows "fst (transfer s from to amount)"
    and "wellFormed (snd (transfer s from to amount))"
    and "map_of (accounts (snd (transfer s from to amount))) (toLowerCase from) = Some rf"
    and "getBalance (snd (transfer s from to amount)) a =
           getBalance s a + (if toLowerCase a = toLowerCase to then amount else 0)
                          - (if toLowerCase a = toLowerCase from then amount else 0)"
    and "getNonce (snd (transfer s from to amount)) a = getNonce s a"
proof -
  let ?kt = "toLowerCase to" and ?kf = "toLowerCase from"
  let ?s1 = "ensure s ?kt"
  obtain rt where t: "map_of (accounts ?s1) ?kt = Some rt"
    using ensure_has by blast
  let ?s2 = "?s1\<lparr>heap := modify (heap ?s1) rf (\<lambda>a. a\<lparr>balance := balance a - amount\<rparr>)\<rparr>"
  let ?s3 = "?s2\<lparr>heap := modify (heap ?s2) rt (\<lambda>a. a\<lparr>balance := balance a + amount\<rparr>)\<rparr>"
  have shape: "transfer s from to amount = (True, updateStateRoot ?s3)"
    using transfer_shape[OF w f b t] by simp
  have w1: "wellFormed ?s1" using w by (rule wellFormed_ensure)
  have f1: "map_of (accounts ?s1) ?kf = Some rf" using f by (rule ensure_keeps)
  have w2: "wellFormed ?s2" using w1 by (rule wellFormed_modify)
  have t2: "map_of (accounts ?s2) ?kt = Some rt" using t by simp
  have l1: "lookup ?s1 k = (if k = ?kt \<and> lookup s ?kt = None then Some \<lparr>balance = 0, nonce = 0\<rparr> else lookup s k)" for k
    using w by (rule lookup_ensure)
  have l2: "lookup ?s2 k = (if k = ?kf then Some ((the (lookup ?s1 ?kf))\<lparr>balance := balance (the (lookup ?s1 ?kf)) - amount\<rparr>) else lookup ?s1 k)" for k
    using lookup_modify[OF w1 f1] f1 by (simp add: lookup_def)
  have l3: "lookup ?s3 k = (if k = ?kt then Some ((the (lookup ?s2 ?kt))\<lparr>balance := balance (the (lookup ?s2 ?kt)) + amount\<rparr>) else lookup ?s2 k)" for k
    using lookup_modify[OF w2 t2] t2 by (simp add: lookup_def)
  have lf: "lookup s ?kf = Some (heap s ! rf)" using f by (simp add: lookup_def)
  show "fst (transfer s from to amount)" by (simp add: shape)
  show "wellFormed (snd (transfer s from to amount))"
    using wellFormed_modify[OF w2] by (simp add: shape)
  show "map_of (accounts (snd (transfer s from to amount))) ?kf = Some rf"
    using f1 by (simp add: shape)
  show "getBalance (snd (transfer s from to amount)) a =
           getBalance s a + (if toLowerCase a = ?kt then amount else 0)
                          - (if toLowerCase a = ?kf then amount else 0)"
    unfolding shape snd_conv getBalance_lookup lookup_updateStateRoot l3 l2 l1
    using lf by (auto split: option.splits)
  show "getNonce (snd (transfer s from to amount)) a = getNonce s a"
    unfolding shape snd_conv getNonce_lookup lookup_updateStateRoot l3 l2 l1
    using lf by (auto split: option.splits)
qed

lemma toLowerCase_Nil [simp]: "(toLowerCase r = []) = (r = [])"
  by (simp add: toLowerCase_def)

lemma truthy_lower [simp]: "truthy (map_option toLowerCase x) = truthy x"
  by (cases x) (simp_all add: toLowerCase_def)

lemma getAccount_SomeD: "getAccount s a = Some acct \<Longrightarrow>
   \<exists>r. map_of (accounts s) (toLowerCase a) = Some r \<and> acct = heap s ! r"
  by (auto simp: getAccount_def)

lemma processTransaction_shape:
  assumes fr: "tx_from t = Some sender"
    and f: "map_of (accounts s) (toLowerCase sender) = Some rf"
    and n: "nonce (heap s ! rf) = tx_nonce t"
    and b: "tx_value t + gasLimit t * gasPrice t \<le> balance (heap s ! rf)"
    and s1: "s1 = (if truthy (tx_to t) \<and> tx_value t > 0
                   then snd (transfer s (toLowerCase sender) (toLowerCase (the (tx_to t))) (tx_value t)) else s)"
    and ok: "truthy (tx_to t) \<and> tx_value t > 0 \<Longrightarrow> fst (transfer s (toLowerCase sender) (toLowerCase (the (tx_to t))) (tx_value t))"
    and f1: "map_of (accounts s1) (toLowerCase sender) = Some rf"
  shows "processTransaction s t =
     (Inr (), updateStateRoot
        (s1\<lparr>heap := modify (modify (heap s1) rf (\<lambda>a. a\<lparr>balance := balance a - gasPrice t * gasLimit t\<rparr>))
                     rf (\<lambda>a. a\<lparr>nonce := nonce a + 1\<rparr>)\<rparr>))"
proof (cases "truthy (tx_to t) \<and> tx_value t > 0")
  case True
  then obtain r where r: "tx_to t = Some r" by (cases "tx_to t") auto
  from True ok obtain s' where tr: "transfer s (toLowerCase sender) (toLowerCase r) (tx_value t) = (True, s')"
    by (cases "transfer s (toLowerCase sender) (toLowerCase r) (tx_value t)") (auto simp: r)
  with s1 True r have "s1 = s'" by simp
  with f1 have "AList.update (toLowerCase sender) rf (accounts s') = accounts s'"
    by (simp add: update_triv)
  then show ?thesis
    using fr f n b True r tr \<open>s1 = s'\<close>
    by (simp add: processTransaction_def Let_def mult.commute)
next
  case False
  with s1 have "s1 = s" by simp
  with f have "AList.update (toLowerCase sender) rf (accounts s) = accounts s"
    by (simp add: update_triv)
  then show ?thesis
    using fr f n b False \<open>s1 = s\<close>
    by (auto simp: processTransaction_def Let_def mult.commute)
qed

text \<open>
  What \<open>processTransaction\<close> does to a transaction that carries a sender, when the
  sender's account exists with the transaction's nonce and owns the total cost (and the
  amount to move, which matters only for a negative gas cost): it succeeds, the nonce
  of the sender grows by 1, the sender pays the gas cost, and the amount \<open>transferred\<close>
  moves to the recipient.
\<close>

lemma processTransaction_effect:
  assumes w: "wellFormed s"
    and fr: "tx_from t = Some sender"
    and g: "getAccount s sender = Some acct"
    and n: "nonce acct = tx_nonce t"
    and b: "tx_value t + gasLimit t * gasPrice t \<le> balance acct"
    and c: "transferred t \<le> balance acct"
  shows "succeeded (fst (processTransaction s t))"
    and "getNonce (snd (processTransaction s t)) a =
           getNonce s a + (if toLowerCase a = toLowerCase sender then 1 else 0)"
    and "getBalance (snd (processTransaction s t)) a =
           getBalance s a
           + (if names_recipient t a then transferred t else 0)
           - (if toLowerCase a = toLowerCase sender then transferred t + gasLimit t * gasPrice t else 0)"
    and "wellFormed (snd (processTransaction s t))"
proof -
  let ?kf = "toLowerCase sender"
  let ?mv = "truthy (tx_to t) \<and> tx_value t > 0"
  let ?tr = "transfer s ?kf (toLowerCase (the (tx_to t))) (tx_value t)"
  from g obtain rf where f: "map_of (accounts s) ?kf = Some rf" and acct: "acct = heap s ! rf"
    by (auto dest: getAccount_SomeD)
  define s1 where "s1 = (if ?mv then snd ?tr else s)"
  have f': "map_of (accounts s) (toLowerCase ?kf) = Some rf" using f by simp
  have te: "fst ?tr" "wellFormed (snd ?tr)" "map_of (accounts (snd ?tr)) ?kf = Some rf"
    "\<And>x. getBalance (snd ?tr) x = getBalance s x
         + (if toLowerCase x = toLowerCase (toLowerCase (the (tx_to t))) then tx_value t else 0)
         - (if toLowerCase x = toLowerCase ?kf then tx_value t else 0)"
    "\<And>x. getNonce (snd ?tr) x = getNonce s x"
    if "?mv"
  proof -
    from that c acct have bv: "\<not> balance (heap s ! rf) < tx_value t"
      by (simp add: transferred_def)
    note e = transfer_effect[OF w f' bv, of "toLowerCase (the (tx_to t))"]
    show "fst ?tr" "wellFormed (snd ?tr)" "map_of (accounts (snd ?tr)) ?kf = Some rf"
      using e(1,2,3) by simp_all
    show "getBalance (snd ?tr) x = getBalance s x
         + (if toLowerCase x = toLowerCase (toLowerCase (the (tx_to t))) then tx_value t else 0)
         - (if toLowerCase x = toLowerCase ?kf then tx_value t else 0)" for x
      using e(4)[of x] by simp
    show "getNonce (snd ?tr) x = getNonce s x" for x using e(5)[of x] by simp
  qed
  have w1: "wellFormed s1" using w te(2) by (simp add: s1_def)
  have f1: "map_of (accounts s1) ?kf = Some rf" using f te(3) by (simp add: s1_def)
  have ok: "?mv \<Longrightarrow> fst ?tr" using te(1) by simp
  let ?s2 = "s1\<lparr>heap := modify (heap s1) rf (\<lambda>a. a\<lparr>balance := balance a - gasPrice t * gasLimit t\<rparr>)\<rparr>"
  let ?s3 = "?s2\<lparr>heap := modify (heap ?s2) rf (\<lambda>a. a\<lparr>nonce := nonce a + 1\<rparr>)\<rparr>"
  have shape: "processTransaction s t = (Inr (), updateStateRoot ?s3)"
    using processTransaction_shape[OF fr f _ _ s1_def ok f1] n b acct by simp
  have w2: "wellFormed ?s2" using w1 by (rule wellFormed_modify)
  have f2: "map_of (accounts ?s2) ?kf = Some rf" using f1 by simp
  have l2: "lookup ?s2 k = (if k = ?kf then Some ((the (lookup s1 ?kf))\<lparr>balance := balance (the (lookup s1 ?kf)) - gasPrice t * gasLimit t\<rparr>) else lookup s1 k)" for k
    using lookup_modify[OF w1 f1] f1 by (simp add: lookup_def)
  have l3: "lookup ?s3 k = (if k = ?kf then Some ((the (lookup ?s2 ?kf))\<lparr>nonce := nonce (the (lookup ?s2 ?kf)) + 1\<rparr>) else lookup ?s2 k)" for k
    using lookup_modify[OF w2 f2] f2 by (simp add: lookup_def)
  have lf1: "lookup s1 ?kf = Some (heap s1 ! rf)" using f1 by (simp add: lookup_def)
  have b1: "getBalance s1 x = getBalance s x + (if names_recipient t x then transferred t else 0)
        - (if toLowerCase x = ?kf then transferred t else 0)" for x
    using te(4)[of x] by (cases "tx_to t") (auto simp: s1_def transferred_def names_recipient_def)
  have n1: "getNonce s1 x = getNonce s x" for x
    using te(5)[of x] by (simp add: s1_def)
  show "succeeded (fst (processTransaction s t))" by (simp add: shape succeeded_def)
  show "wellFormed (snd (processTransaction s t))" using wellFormed_modify[OF w2] by (simp add: shape)
  have "getNonce (snd (processTransaction s t)) a = getNonce s1 a + (if toLowerCase a = ?kf then 1 else 0)"
    unfolding shape snd_conv getNonce_lookup lookup_updateStateRoot l3 l2
    using lf1 by (auto split: option.splits)
  then show "getNonce (snd (processTransaction s t)) a =
           getNonce s a + (if toLowerCase a = ?kf then 1 else 0)"
    by (simp add: n1)
  have "getBalance (snd (processTransaction s t)) a = getBalance s1 a - (if toLowerCase a = ?kf then gasLimit t * gasPrice t else 0)"
    unfolding shape snd_conv getBalance_lookup lookup_updateStateRoot l3 l2
    using lf1 by (auto split: option.splits simp: mult.commute)
  then show "getBalance (snd (processTransaction s t)) a =
           getBalance s a
           + (if names_recipient t a then transferred t else 0)
           - (if toLowerCase a = ?kf then transferred t + gasLimit t * gasPrice t else 0)"
    by (simp add: b1)
qed

subsection \<open>Well-formed stores are kept\<close>

text \<open>
  Every account mutation keeps a well-formed store well-formed, and the store the
  constructor builds is well-formed (next subsection).
\<close>

lemma wellFormed_write:
  assumes "wellFormed s" and "getOrFresh s k = (r, h)"
  shows "wellFormed (s\<lparr>heap := modify h r f, accounts := AList.update k r (accounts s)\<rparr>)"
proof -
  have e: "ensure s k = s\<lparr>heap := h, accounts := AList.update k r (accounts s)\<rparr>"
    using assms(2) by (simp add: ensure_def)
  have "wellFormed (ensure s k)" using assms(1) by (rule wellFormed_ensure)
  then have "wellFormed ((ensure s k)\<lparr>heap := modify (heap (ensure s k)) r f\<rparr>)"
    by (rule wellFormed_modify)
  then show ?thesis by (simp add: e wellFormed_def)
qed

lemma wellFormed_setBalance: "wellFormed s \<Longrightarrow> wellFormed (setBalance s a b)"
  by (auto simp: setBalance_def Let_def split: prod.splits intro: wellFormed_write)

lemma wellFormed_incrementNonce: "wellFormed s \<Longrightarrow> wellFormed (incrementNonce s a)"
  by (auto simp: incrementNonce_def Let_def split: prod.splits intro: wellFormed_write)

lemma transfer_failed: "\<not> fst (transfer s f t v) \<Longrightarrow> snd (transfer s f t v) = s"
  by (auto simp: transfer_def Let_def split: option.splits if_splits prod.splits)

lemma transfer_succeeded:
  "fst (transfer s f t v) \<Longrightarrow>
     \<exists>rf. map_of (accounts s) (toLowerCase f) = Some rf \<and> \<not> balance (heap s ! rf) < v"
  by (auto simp: transfer_def Let_def split: option.splits if_splits prod.splits)

lemma wellFormed_transfer: "wellFormed s \<Longrightarrow> wellFormed (snd (transfer s f t v))"
proof (cases "fst (transfer s f t v)")
  case True
  assume w: "wellFormed s"
  from transfer_succeeded[OF True] obtain rf where
    "map_of (accounts s) (toLowerCase f) = Some rf" "\<not> balance (heap s ! rf) < v" by blast
  from transfer_effect(2)[OF w this] show ?thesis .
next
  case False
  assume "wellFormed s"
  then show ?thesis by (simp add: transfer_failed[OF False])
qed

lemma transfer_keeps_refs:
  "map_of (accounts s) k = Some r \<Longrightarrow> map_of (accounts (snd (transfer s f t v))) k = Some r"
  by (auto simp: transfer_def Let_def getOrFresh_def alloc_def update_conv' update_triv
      split: option.splits if_splits prod.splits)

lemma wellFormed_processTransaction:
  assumes w: "wellFormed s"
  shows "wellFormed (snd (processTransaction s t))"
proof (cases "tx_from t")
  case None
  then show ?thesis using w by (simp add: processTransaction_def)
next
  case (Some sender)
  let ?tr = "transfer s (toLowerCase sender) (the (map_option toLowerCase (tx_to t))) (tx_value t)"
  obtain ok s1 where tr: "?tr = (ok, s1)" by (cases ?tr)
  have w1: "wellFormed s1" using wellFormed_transfer[OF w, of "toLowerCase sender"] tr
    by (metis snd_conv)
  have k1: "map_of (accounts s) (toLowerCase sender) = Some r \<Longrightarrow>
      map_of (accounts s1) (toLowerCase sender) = Some r" for r
    using transfer_keeps_refs[of s _ r] tr by (metis snd_conv)
  have m: "wellFormed (q\<lparr>heap := modify (modify (heap q) r g) r g', accounts := AList.update k r (accounts q)\<rparr>)"
    if "wellFormed q" "map_of (accounts q) k = Some r" for q r k g g'
    using that by (simp add: update_triv wellFormed_def modify_def)
  show ?thesis
    using w w1 tr k1 Some
    by (auto simp: processTransaction_def Let_def split: option.splits intro!: m)
qed

lemma wellFormed_createSnapshot: "wellFormed (snd (createSnapshot s now)) = wellFormed s"
  by (simp add: createSnapshot_def Let_def wellFormed_def)

lemma wellFormed_run: "wellFormed s \<Longrightarrow> restoreFree ms \<Longrightarrow> wellFormed (run s ms)"
proof (induction ms arbitrary: s)
  case Nil
  then show ?case by (simp add: run_def)
next
  case (Cons m ms)
  have "wellFormed (apply_mutation s m)"
    using Cons.prems
    by (cases m) (simp_all add: wellFormed_setBalance wellFormed_incrementNonce
        wellFormed_transfer wellFormed_processTransaction wellFormed_createSnapshot restoreFree_def)
  moreover have "restoreFree ms" using Cons.prems(2) by (simp add: restoreFree_def)
  ultimately show ?case using Cons.IH by (simp add: run_def)
qed

subsection \<open>The genesis state\<close>

lemma toLowerCase_genesis [simp]:
  "toLowerCase ''0x1234567890123456789012345678901234567890'' = ''0x1234567890123456789012345678901234567890''"
  "toLowerCase ''0x2345678901234567890123456789012345678901'' = ''0x2345678901234567890123456789012345678901''"
  "toLowerCase ''0x3456789012345678901234567890123456789012'' = ''0x3456789012345678901234567890123456789012''"
  by (simp_all add: toLowerCase_def lowerChar_def)

lemma newStateManager_eq:
  "newStateManager =
     \<lparr>heap = [\<lparr>balance = 1000000000000000000000000000, nonce = 0\<rparr>,
              \<lparr>balance = 500000000000000000000000000, nonce = 0\<rparr>,
              \<lparr>balance = 100000000000000000000000000, nonce = 0\<rparr>],
      accounts = [(''0x1234567890123456789012345678901234567890'', 0),
                  (''0x2345678901234567890123456789012345678901'', 1),
                  (''0x3456789012345678901234567890123456789012'', 2)],
      snapshots = [], currentStateRoot = []\<rparr>"
  by (simp add: newStateManager_def initializeGenesisState_def genesisAccounts_def emptyState_def alloc_def)

lemma wellFormed_newStateManager: "wellFormed newStateManager"
  by (simp add: newStateManager_eq wellFormed_def)


subsection \<open>Applying a transaction\<close>

text \<open>
  No transaction the repository builds carries a sender, so \<open>processTransaction\<close>
  refuses every one of them, in any state, and leaves the state as it is.
\<close>

lemma processTransaction_built:
  "processTransaction s (createTransfer h from to v n) = (Inl CaughtTypeError, s)"
  "processTransaction s (createContractDeployment h from code v n) = (Inl CaughtTypeError, s)"
  by (simp_all add: processTransaction_def createTransfer_def createContractDeployment_def)

text \<open>
  C1 does not hold of the code. The transfer \<open>tx0\<close> is built by
  \<open>Transaction.createTransfer\<close> for the first genesis account, whose account exists with
  the nonce of the transaction and owns far more than value + gasLimit * gasPrice. The
  transaction is valid and has no sender: \<open>processTransaction\<close> fails in the constructor
  state, and no nonce and no balance changes.
\<close>

theorem processTransaction_refuses_built_transfer:
  "tx0 = createTransfer ''a1'' genesis1 genesis2 5 0 \<and>
   tx_from tx0 = None \<and> validate tx0 \<and>
   getAccount newStateManager genesis1 = Some \<lparr>balance = 1000000000000000000000000000, nonce = 0\<rparr> \<and>
   tx_nonce tx0 = 0 \<and>
   tx_value tx0 + gasLimit tx0 * gasPrice tx0 \<le> 1000000000000000000000000000 \<and>
   processTransaction newStateManager tx0 = (Inl CaughtTypeError, newStateManager) \<and>
   \<not> succeeded (fst (processTransaction newStateManager tx0)) \<and>
   getNonce (snd (processTransaction newStateManager tx0)) genesis1 = 0 \<and>
   getBalance (snd (processTransaction newStateManager tx0)) genesis1 = 1000000000000000000000000000 \<and>
   getBalance (snd (processTransaction newStateManager tx0)) genesis2 = 500000000000000000000000000"
proof -
  have p: "processTransaction newStateManager tx0 = (Inl CaughtTypeError, newStateManager)"
    by (simp add: tx0_def processTransaction_built)
  have t: "tx_from tx0 = None" "tx_nonce tx0 = 0"
    "tx_value tx0 + gasLimit tx0 * gasPrice tx0 \<le> 1000000000000000000000000000"
    by (simp_all add: tx0_def createTransfer_def)
  have v: "validate tx0"
    by (simp add: tx0_def createTransfer_def validate_def startsWith_def isValidAddress_def
        isHexDigit_def genesis2_def)
  have g: "getAccount newStateManager genesis1 = Some \<lparr>balance = 1000000000000000000000000000, nonce = 0\<rparr>"
    "getNonce newStateManager genesis1 = 0"
    "getBalance newStateManager genesis1 = 1000000000000000000000000000"
    "getBalance newStateManager genesis2 = 500000000000000000000000000"
    by (simp_all add: getAccount_def getNonce_def getBalance_def newStateManager_eq genesis1_def genesis2_def)
  show ?thesis
    using t v g by (simp add: p succeeded_def tx0_def[symmetric])
qed

text \<open>
  With the sender attached, a contract deployment that carries a value passes the
  checks and succeeds; its sender pays the gas cost only, and the value stays.
\<close>

lemma processTransaction_deployment_with_sender:
  "succeeded (fst (processTransaction newStateManager (withSender genesis1 txC))) \<and>
   tx_value txC = 5 \<and>
   getBalance newStateManager genesis1
     - getBalance (snd (processTransaction newStateManager (withSender genesis1 txC))) genesis1
     = gasLimit txC * gasPrice txC"
proof -
  let ?t = "withSender genesis1 txC"
  have fr: "tx_from ?t = Some genesis1" by (simp add: withSender_def)
  have g: "getAccount newStateManager genesis1 = Some \<lparr>balance = 1000000000000000000000000000, nonce = 0\<rparr>"
    by (simp add: getAccount_def newStateManager_eq genesis1_def)
  have n: "nonce \<lparr>balance = 1000000000000000000000000000, nonce = 0\<rparr> = tx_nonce ?t"
    by (simp add: txC_def createContractDeployment_def withSender_def)
  have b: "tx_value ?t + gasLimit ?t * gasPrice ?t \<le> balance \<lparr>balance = 1000000000000000000000000000, nonce = 0\<rparr>"
    by (simp add: txC_def createContractDeployment_def withSender_def)
  have t: "transferred ?t = 0" "\<not> names_recipient ?t genesis1" "tx_value txC = 5"
    "gasLimit ?t = gasLimit txC" "gasPrice ?t = gasPrice txC"
    by (simp_all add: transferred_def names_recipient_def txC_def createContractDeployment_def withSender_def)
  have c: "transferred ?t \<le> balance \<lparr>balance = 1000000000000000000000000000, nonce = 0\<rparr>"
    by (simp add: t)
  note e = processTransaction_effect[OF wellFormed_newStateManager fr g n b c]
  show ?thesis
    using e(1) e(3)[of genesis1] by (simp add: t)
qed

text \<open>
  C5. A rejected transaction changes nothing: whenever \<open>processTransaction\<close> fails, the
  state it leaves (every balance, every nonce and the state root) is the state it
  started from. A transaction with no sender is refused by the \<open>catch\<close> block. With a
  sender, an unknown sender is refused first; then the nonce is compared, so a wrong
  nonce is reported whatever the balance; the balance is compared only when the nonce
  is right.
\<close>

theorem processTransaction_all_or_nothing:
  "(\<not> succeeded (fst (processTransaction s t)) \<longrightarrow> snd (processTransaction s t) = s) \<and>
   (tx_from t = None \<longrightarrow> processTransaction s t = (Inl CaughtTypeError, s)) \<and>
   (\<forall>sender. tx_from t = Some sender \<and> getAccount s sender = None
       \<longrightarrow> processTransaction s t = (Inl UnknownSender, s)) \<and>
   (\<forall>sender acct. tx_from t = Some sender \<and> getAccount s sender = Some acct \<and>
                 nonce acct \<noteq> tx_nonce t
       \<longrightarrow> processTransaction s t = (Inl NonceMismatch, s)) \<and>
   (\<forall>sender acct. tx_from t = Some sender \<and> getAccount s sender = Some acct \<and>
                 nonce acct = tx_nonce t \<and>
                 balance acct < tx_value t + gasLimit t * gasPrice t
       \<longrightarrow> processTransaction s t = (Inl InsufficientFunds, s))"
proof -
  have tr: "\<not> fst (transfer s a b v) \<Longrightarrow> snd (transfer s a b v) = s" for a b v
    by (rule transfer_failed)
  have 1: "\<not> succeeded (fst (processTransaction s t)) \<longrightarrow> snd (processTransaction s t) = s"
  proof (cases "tx_from t")
    case None
    then show ?thesis by (simp add: processTransaction_def)
  next
    case (Some sender)
    then show ?thesis
      using tr[of "toLowerCase sender" "the (map_option toLowerCase (tx_to t))" "tx_value t"]
      by (auto simp: processTransaction_def Let_def succeeded_def split: option.splits if_splits prod.splits)
  qed
  have 0: "tx_from t = None \<longrightarrow> processTransaction s t = (Inl CaughtTypeError, s)"
    by (simp add: processTransaction_def)
  have 2: "tx_from t = Some sender \<and> getAccount s sender = None
       \<longrightarrow> processTransaction s t = (Inl UnknownSender, s)" for sender
    by (auto simp: processTransaction_def getAccount_def Let_def)
  have 3: "tx_from t = Some sender \<and> getAccount s sender = Some acct \<and> nonce acct \<noteq> tx_nonce t
       \<longrightarrow> processTransaction s t = (Inl NonceMismatch, s)" for sender acct
    by (auto simp: processTransaction_def getAccount_def Let_def)
  have 4: "tx_from t = Some sender \<and> getAccount s sender = Some acct \<and> nonce acct = tx_nonce t
            \<and> balance acct < tx_value t + gasLimit t * gasPrice t
       \<longrightarrow> processTransaction s t = (Inl InsufficientFunds, s)" for sender acct
    by (auto simp: processTransaction_def getAccount_def Let_def mult.commute)
  from 0 1 2 3 4 show ?thesis by blast
qed

text \<open>
  The theorem at the constructor state, for a transfer with a wrong nonce and too high
  a cost. As \<open>createTransfer\<close> builds it, it has no sender: the call fails and the state
  is the same. With its sender attached, the nonce check answers, and the state is the
  same.
\<close>

theorem processTransaction_all_or_nothing_witness:
  "tx_from txBad = None \<and>
   processTransaction newStateManager txBad = (Inl CaughtTypeError, newStateManager) \<and>
   \<not> succeeded (fst (processTransaction newStateManager txBad)) \<and>
   snd (processTransaction newStateManager txBad) = newStateManager \<and>
   tx_from (withSender genesis1 txBad) = Some genesis1 \<and>
   getAccount newStateManager genesis1 = Some \<lparr>balance = 1000000000000000000000000000, nonce = 0\<rparr> \<and>
   nonce \<lparr>balance = 1000000000000000000000000000, nonce = 0\<rparr> \<noteq> tx_nonce (withSender genesis1 txBad) \<and>
   balance \<lparr>balance = 1000000000000000000000000000, nonce = 0\<rparr>
     < tx_value (withSender genesis1 txBad)
       + gasLimit (withSender genesis1 txBad) * gasPrice (withSender genesis1 txBad) \<and>
   processTransaction newStateManager (withSender genesis1 txBad) = (Inl NonceMismatch, newStateManager) \<and>
   \<not> succeeded (fst (processTransaction newStateManager (withSender genesis1 txBad))) \<and>
   snd (processTransaction newStateManager (withSender genesis1 txBad)) = newStateManager"
proof -
  let ?t = "withSender genesis1 txBad"
  have f0: "tx_from txBad = None" by (simp add: txBad_def createTransfer_def)
  have fr: "tx_from ?t = Some genesis1" by (simp add: withSender_def)
  have g: "getAccount newStateManager genesis1 = Some \<lparr>balance = 1000000000000000000000000000, nonce = 0\<rparr>"
    by (simp add: getAccount_def newStateManager_eq genesis1_def)
  have n: "nonce \<lparr>balance = 1000000000000000000000000000, nonce = 0\<rparr> \<noteq> tx_nonce ?t"
    by (simp add: txBad_def createTransfer_def withSender_def)
  have b: "balance \<lparr>balance = 1000000000000000000000000000, nonce = 0\<rparr> < tx_value ?t + gasLimit ?t * gasPrice ?t"
    by (simp add: txBad_def createTransfer_def withSender_def)
  from processTransaction_all_or_nothing[of newStateManager txBad] f0
  have r0: "processTransaction newStateManager txBad = (Inl CaughtTypeError, newStateManager)"
    by blast
  from processTransaction_all_or_nothing[of newStateManager ?t] fr g n
  have r: "processTransaction newStateManager ?t = (Inl NonceMismatch, newStateManager)" by blast
  show ?thesis using f0 fr g n b r0 r by (simp add: succeeded_def)
qed

subsection \<open>The state root\<close>

lemma map_insort_key: "map f (insort_key f x xs) = insort (f x) (map f xs)"
  by (induct xs) auto

lemma map_sort_key: "map f (sort_key f xs) = sort (map f xs)"
  by (induct xs) (auto simp: map_insort_key)

lemma sort_distinct_eq:
  fixes xs ys :: "'a::linorder list"
  assumes "distinct xs" "distinct ys" "set xs = set ys"
  shows "sort xs = sort ys"
  by (rule sorted_distinct_set_unique) (simp_all add: assms)

lemma render_by_key:
  assumes "distinct (map fst (accounts s))" "e \<in> set (accounts s)"
  shows "renderAccount (heap s) e = renderKey s (fst e)"
proof -
  from assms have "map_of (accounts s) (fst e) = Some (snd e)" by (cases e) simp
  then show ?thesis by (simp add: renderAccount_def renderKey_def lookup_def Let_def)
qed

lemma accountData_by_keys:
  assumes "distinct (map fst (accounts s))"
  shows "accountData s = join ''|'' (map (renderKey s) (sort (map fst (accounts s))))"
proof -
  have "map (renderAccount (heap s)) (sort_key fst (accounts s)) = map (renderKey s \<circ> fst) (sort_key fst (accounts s))"
    using assms by (intro map_cong) (auto simp: render_by_key)
  also have "\<dots> = map (renderKey s) (sort (map fst (accounts s)))"
    by (simp add: map_sort_key[symmetric])
  finally show ?thesis by (simp add: accountData_def)
qed

lemma lookup_dom: "(lookup s k = None) = (k \<notin> fst ` set (accounts s))"
  by (simp add: lookup_def map_of_eq_None_iff)

lemma accountData_cong:
  assumes d1: "distinct (map fst (accounts s1))" and d2: "distinct (map fst (accounts s2))"
    and l: "\<And>k. lookup s1 k = lookup s2 k"
  shows "accountData s1 = accountData s2"
proof -
  have "k \<in> fst ` set (accounts s1) \<longleftrightarrow> k \<in> fst ` set (accounts s2)" for k
    using l[of k] lookup_dom[of s1 k] lookup_dom[of s2 k] by simp
  then have "set (map fst (accounts s1)) = set (map fst (accounts s2))"
    by auto
  then have srt: "sort (map fst (accounts s1)) = sort (map fst (accounts s2))"
    using d1 d2 by (rule sort_distinct_eq[rotated 2])
  have rk: "renderKey s1 = renderKey s2"
    by (rule ext) (simp add: renderKey_def l)
  show ?thesis
    unfolding accountData_by_keys[OF d1] accountData_by_keys[OF d2] srt rk ..
qed

lemma accountData_updateStateRoot [simp]: "accountData (updateStateRoot s) = accountData s"
  by (simp add: accountData_def)

lemma rootOf_updateStateRoot [simp]: "rootOf (updateStateRoot s) = rootOf s"
  by (simp add: rootOf_def)

lemma currentStateRoot_update [simp]: "currentStateRoot (updateStateRoot s) = rootOf s"
  by (simp add: updateStateRoot_def rootOf_def)

lemma keys_ok_update [simp]: "keys_ok m \<Longrightarrow> keys_ok (AList.update (toLowerCase a) r m)"
  by (auto simp: keys_ok_def update_keys)

lemma consistent_update [simp]: "consistent (updateStateRoot s) = keys_ok (accounts s)"
  by (simp add: consistent_def)

lemma consistent_setBalance: "consistent s \<Longrightarrow> consistent (setBalance s a b)"
  by (simp add: setBalance_def Let_def consistent_def split: prod.splits)

lemma consistent_incrementNonce: "consistent s \<Longrightarrow> consistent (incrementNonce s a)"
  by (simp add: incrementNonce_def Let_def consistent_def split: prod.splits)

lemma consistent_transfer: "consistent s \<Longrightarrow> consistent (snd (transfer s f t v))"
  by (simp add: transfer_def Let_def consistent_def split: prod.splits option.splits)

lemma consistent_processTransaction:
  assumes "consistent s"
  shows "consistent (snd (processTransaction s t))"
proof (cases "tx_from t")
  case None
  then show ?thesis using assms by (simp add: processTransaction_def)
next
  case (Some sender)
  let ?tr = "transfer s (toLowerCase sender) (the (map_option toLowerCase (tx_to t))) (tx_value t)"
  obtain ok s1 where tr: "?tr = (ok, s1)" by (cases ?tr)
  have "consistent (snd ?tr)" using assms by (rule consistent_transfer)
  with tr have r1: "consistent s1" by simp
  show ?thesis
    using assms r1 tr Some
    by (simp add: processTransaction_def Let_def consistent_def split: option.splits)
qed

lemma createSnapshot_proj [simp]:
  "heap (snd (createSnapshot s now)) = heap s"
  "accounts (snd (createSnapshot s now)) = accounts s"
  "currentStateRoot (snd (createSnapshot s now)) = currentStateRoot s"
  by (simp_all add: createSnapshot_def Let_def)

lemma consistent_createSnapshot: "consistent s \<Longrightarrow> consistent (snd (createSnapshot s now))"
  by (simp add: consistent_def rootOf_def accountData_def)

lemma consistent_run: "consistent s \<Longrightarrow> restoreFree ms \<Longrightarrow> consistent (run s ms)"
proof (induction ms arbitrary: s)
  case Nil
  then show ?case by (simp add: run_def)
next
  case (Cons m ms)
  have "consistent (apply_mutation s m)"
    using Cons.prems
    by (cases m) (simp_all add: consistent_setBalance consistent_incrementNonce
        consistent_transfer consistent_processTransaction consistent_createSnapshot restoreFree_def)
  moreover have "restoreFree ms" using Cons.prems by (simp add: restoreFree_def)
  ultimately show ?case using Cons.IH by (simp add: run_def)
qed

lemma lookup_getAccount:
  assumes "keys_ok (accounts s)"
  shows "lookup s k = (if toLowerCase k = k then getAccount s k else None)"
proof (cases "toLowerCase k = k")
  case True
  then show ?thesis by (simp add: lookup_def getAccount_def)
next
  case False
  have "k \<notin> fst ` set (accounts s)"
    using assms False by (auto simp: keys_ok_def list_all_iff)
  then show ?thesis using False by (simp add: lookup_dom)
qed


lemma toLowerCase_validators [simp]:
  "toLowerCase ''0x4567890123456789012345678901234567890123'' = ''0x4567890123456789012345678901234567890123''"
  "toLowerCase ''0x5678901234567890123456789012345678901234'' = ''0x5678901234567890123456789012345678901234''"
  by (simp_all add: toLowerCase_def lowerChar_def)

lemma initialize_proj:
  "heap (initialize newStateManager) =
     [\<lparr>balance = 1000000000000000000000000000, nonce = 0\<rparr>,
      \<lparr>balance = 500000000000000000000000000, nonce = 0\<rparr>,
      \<lparr>balance = 100000000000000000000000000, nonce = 0\<rparr>,
      \<lparr>balance = 1000000000000000000000000000, nonce = 0\<rparr>,
      \<lparr>balance = 500000000000000000000000000, nonce = 0\<rparr>,
      \<lparr>balance = 100000000000000000000000000, nonce = 0\<rparr>]"
  "accounts (initialize newStateManager) =
     [(''0x1234567890123456789012345678901234567890'', 3),
      (''0x2345678901234567890123456789012345678901'', 4),
      (''0x3456789012345678901234567890123456789012'', 5)]"
  "snapshots (initialize newStateManager) = []"
  by (simp_all add: initialize_def initializeGenesisState_def genesisAccounts_def newStateManager_eq alloc_def
      updateStateRoot_def)

lemma consistent_initialize: "consistent (initialize newStateManager)"
  unfolding initialize_def consistent_update
  using initialize_proj(2) by (simp add: initialize_def keys_ok_def)

lemma plainChar_eval:
  "plainChar CHR ''0''" "plainChar CHR ''1''" "plainChar CHR ''2''" "plainChar CHR ''3''"
  "plainChar CHR ''4''" "plainChar CHR ''5''" "plainChar CHR ''6''" "plainChar CHR ''7''"
  "plainChar CHR ''8''" "plainChar CHR ''9''" "plainChar CHR ''x''"
  by (simp_all add: plainChar_def)


subsection \<open>Roots that do not follow the accounts\<close>

lemma digitChar_eval:
  "digitChar 0 = CHR ''0''" "digitChar 1 = CHR ''1''" "digitChar (Suc 0) = CHR ''1''"
  "digitChar 2 = CHR ''2''" "digitChar 3 = CHR ''3''"
  "digitChar 4 = CHR ''4''" "digitChar 5 = CHR ''5''" "digitChar 6 = CHR ''6''" "digitChar 7 = CHR ''7''"
  "digitChar 8 = CHR ''8''" "digitChar 9 = CHR ''9''" "digitChar 10 = CHR ''a''" "digitChar 11 = CHR ''b''"
  "digitChar 12 = CHR ''c''" "digitChar 13 = CHR ''d''" "digitChar 14 = CHR ''e''" "digitChar 15 = CHR ''f''"
  by (simp_all add: digitChar_def char_of_eq_iff)

lemma bigintToString_eval:
  "bigintToString 0 = ''0''"
  "bigintToString 5 = ''5''"
  "bigintToString 1000000000000000000000000000 = ''1000000000000000000000000000''"
  "bigintToString 500000000000000000000000000 = ''500000000000000000000000000''"
  "bigintToString 100000000000000000000000000 = ''100000000000000000000000000''"
  by (simp_all add: bigintToString_def natToString.simps digitChar_eval)

lemma simpleHash_genesis:
  "simpleHash ''0x1234567890123456789012345678901234567890:1000000000000000000000000000:0|0x2345678901234567890123456789012345678901:500000000000000000000000000:0|0x3456789012345678901234567890123456789012:100000000000000000000000000:0''
     = replicate 56 (CHR ''0'') @ ''6bc66271''"
  by (simp add: simpleHash_def padStart_def natToString.simps digitChar_eval)

lemma simpleHash_five:
  "simpleHash ''0x1234567890123456789012345678901234567890:5:0|0x2345678901234567890123456789012345678901:500000000000000000000000000:0|0x3456789012345678901234567890123456789012:100000000000000000000000000:0''
     = replicate 56 (CHR ''0'') @ ''3e190e19''"
  by (simp add: simpleHash_def padStart_def natToString.simps digitChar_eval)

lemma rootOf_genesis:
  assumes "accounts s = [(genesis1, a), (genesis2, b), (genesis3, c)]"
    and "heap s ! a = \<lparr>balance = 1000000000000000000000000000, nonce = 0\<rparr>"
    and "heap s ! b = \<lparr>balance = 500000000000000000000000000, nonce = 0\<rparr>"
    and "heap s ! c = \<lparr>balance = 100000000000000000000000000, nonce = 0\<rparr>"
  shows "rootOf s = ''0x'' @ replicate 56 (CHR ''0'') @ ''6bc66271''"
proof -
  have "accountData s = ''0x1234567890123456789012345678901234567890:1000000000000000000000000000:0|0x2345678901234567890123456789012345678901:500000000000000000000000000:0|0x3456789012345678901234567890123456789012:100000000000000000000000000:0''"
    using assms
    by (simp add: accountData_def renderAccount_def bigintToString_eval
        genesis1_def genesis2_def genesis3_def)
  then show ?thesis by (simp only: rootOf_def simpleHash_genesis)
qed

lemma rootOf_five:
  assumes "accounts s = [(genesis1, a), (genesis2, b), (genesis3, c)]"
    and "heap s ! a = \<lparr>balance = 5, nonce = 0\<rparr>"
    and "heap s ! b = \<lparr>balance = 500000000000000000000000000, nonce = 0\<rparr>"
    and "heap s ! c = \<lparr>balance = 100000000000000000000000000, nonce = 0\<rparr>"
  shows "rootOf s = ''0x'' @ replicate 56 (CHR ''0'') @ ''3e190e19''"
proof -
  have "accountData s = ''0x1234567890123456789012345678901234567890:5:0|0x2345678901234567890123456789012345678901:500000000000000000000000000:0|0x3456789012345678901234567890123456789012:100000000000000000000000000:0''"
    using assms
    by (simp add: accountData_def renderAccount_def bigintToString_eval
        genesis1_def genesis2_def genesis3_def)
  then show ?thesis by (simp only: rootOf_def simpleHash_five)
qed

lemma initialState_root:
  "currentStateRoot initialState = ''0x'' @ replicate 56 (CHR ''0'') @ ''6bc66271''"
proof -
  have "currentStateRoot initialState = rootOf initialState"
    using consistent_initialize by (simp add: initialState_def consistent_def)
  also have "\<dots> = ''0x'' @ replicate 56 (CHR ''0'') @ ''6bc66271''"
    by (rule rootOf_genesis[of _ 3 4 5])
      (simp_all add: initialState_def initialize_proj genesis1_def genesis2_def genesis3_def)
  finally show ?thesis .
qed

lemma initialSnapshot_eq:
  "initialSnapshot = \<lparr>snap_accounts = accounts initialState,
                       snap_stateRoot = ''0x'' @ replicate 56 (CHR ''0'') @ ''6bc66271'',
                       snap_timestamp = 0\<rparr>"
  by (simp only: initialSnapshot_def createSnapshot_def Let_def fst_conv initialState_root)

lemma getAccount_three:
  assumes "accounts s = [(k1, a), (k2, b), (k3, c)]" and "accounts s' = [(k1, a), (k2, b), (k3, c)]"
    and "heap s ! a = heap s' ! a" and "heap s ! b = heap s' ! b" and "heap s ! c = heap s' ! c"
  shows "getAccount s = getAccount s'"
  by (rule ext) (simp add: getAccount_def assms)


section \<open>Properties of TransactionPool\<close>


lemma validate_createTransfer:
  "validate (createTransfer h f t v n) = (0 \<le> v \<and> 0 \<le> n \<and> (t = [] \<or> isValidAddress t))"
  by (auto simp: validate_def createTransfer_def startsWith_def isValidAddress_def)

lemma isValidAddress_genesis [simp]:
  "isValidAddress ''0x1234567890123456789012345678901234567890''"
  "isValidAddress ''0x2345678901234567890123456789012345678901''"
  "isValidAddress ''0x3456789012345678901234567890123456789012''"
  by (simp_all add: isValidAddress_def isHexDigit_def)

lemma validate_withSender [simp]: "validate (withSender f t) = validate t"
  by (simp add: validate_def withSender_def)

lemma poolTwo_eq: "poolTwo = \<lparr>pendingTransactions = [(''d1'', txOut), (''d2'', txIn)]\<rparr>"
proof -
  have v: "validate txOut" "validate txIn"
    by (simp_all add: txOut_def txIn_def validate_createTransfer genesis1_def genesis3_def)
  have h: "tx_hash txOut = ''d1''" "tx_hash txIn = ''d2''"
    by (simp_all add: txOut_def txIn_def createTransfer_def)
  show ?thesis
    by (simp add: poolTwo_def addTransaction_def v h hasTransaction_def getSize_def emptyPool_def MAX_POOL_SIZE_def)
qed

lemma poolTwoSenders_eq:
  "poolTwoSenders =
     \<lparr>pendingTransactions = [(''d1'', withSender genesis3 txOut), (''d2'', withSender genesis2 txIn)]\<rparr>"
proof -
  have v: "validate txOut" "validate txIn"
    by (simp_all add: txOut_def txIn_def validate_createTransfer genesis1_def genesis3_def)
  have h: "tx_hash (withSender genesis3 txOut) = ''d1''" "tx_hash (withSender genesis2 txIn) = ''d2''"
    by (simp_all add: txOut_def txIn_def createTransfer_def withSender_def)
  show ?thesis
    by (simp add: poolTwoSenders_def addTransaction_def v h hasTransaction_def getSize_def emptyPool_def MAX_POOL_SIZE_def)
qed

text \<open>
  C8 does not hold of the code.

  \<open>poolTwo\<close> holds two valid transfers as the repository builds and admits them. The
  first was created for the third genesis account as sender, with nonce 0, so the
  pending nonce of that account should be 1. No transaction carries a sender:
  \<open>getTransactionsByAddress\<close> raises a TypeError on the first entry, and so does
  \<open>getPendingNonce\<close>; it returns no number.

  \<open>poolTwoSenders\<close> holds the same transfers with their senders attached. The third
  genesis account has sent one of them, with nonce 0, so the highest nonce among the
  transactions it sent, plus one, is 1. It is also the recipient of the other, whose
  sender used nonce 7, and \<open>getPendingNonce\<close> answers 8: it folds over
  \<open>getTransactionsByAddress\<close>, which also returns the transactions received.
\<close>

theorem getPendingNonce_raises_or_counts_received:
  "poolTwo = \<lparr>pendingTransactions = [(''d1'', txOut), (''d2'', txIn)]\<rparr> \<and>
   txOut = createTransfer ''d1'' genesis3 genesis1 10 0 \<and>
   validate txOut \<and> validate txIn \<and>
   tx_from txOut = None \<and> tx_from txIn = None \<and>
   poolTransactionsByAddress poolTwo genesis3 = Inl TypeError \<and>
   getPendingNonce poolTwo genesis3 = Inl TypeError \<and>
   sentBy poolTwoSenders genesis3 = [withSender genesis3 txOut] \<and>
   tx_nonce (withSender genesis3 txOut) = 0 \<and>
   specPendingNonce poolTwoSenders genesis3 = 1 \<and>
   poolTransactionsByAddress poolTwoSenders genesis3
     = Inr [withSender genesis3 txOut, withSender genesis2 txIn] \<and>
   getPendingNonce poolTwoSenders genesis3 = Inr 8"
proof -
  have v: "validate txOut" "validate txIn"
    by (simp_all add: txOut_def txIn_def validate_createTransfer genesis1_def genesis3_def)
  have n: "tx_from txOut = None" "tx_from txIn = None"
    by (simp_all add: txOut_def txIn_def createTransfer_def)
  have r: "poolTransactionsByAddress poolTwo genesis3 = Inl TypeError"
    by (simp add: poolTransactionsByAddress_def poolTwo_eq n)
  then have r': "getPendingNonce poolTwo genesis3 = Inl TypeError"
    by (simp add: getPendingNonce_def)
  have f: "tx_from (withSender genesis3 txOut) = Some genesis3"
    "tx_to (withSender genesis3 txOut) = Some genesis1" "tx_nonce (withSender genesis3 txOut) = 0"
    "tx_from (withSender genesis2 txIn) = Some genesis2"
    "tx_to (withSender genesis2 txIn) = Some genesis3" "tx_nonce (withSender genesis2 txIn) = 7"
    by (simp_all add: txOut_def txIn_def createTransfer_def withSender_def)
  have g: "genesis1 \<noteq> genesis3" "genesis2 \<noteq> genesis3" "genesis3 \<noteq> []"
    "toLowerCase genesis1 = genesis1" "toLowerCase genesis2 = genesis2" "toLowerCase genesis3 = genesis3"
    by (simp_all add: genesis1_def genesis2_def genesis3_def)
  have s: "sentBy poolTwoSenders genesis3 = [withSender genesis3 txOut]"
    by (simp add: sentBy_def poolTwoSenders_eq f g)
  have q: "poolTransactionsByAddress poolTwoSenders genesis3
             = Inr [withSender genesis3 txOut, withSender genesis2 txIn]"
    by (simp add: poolTransactionsByAddress_def poolTwoSenders_eq f g)
  then have q': "getPendingNonce poolTwoSenders genesis3 = Inr 8"
    by (simp add: getPendingNonce_def f)
  have sp: "specPendingNonce poolTwoSenders genesis3 = 1"
    by (simp add: specPendingNonce_def s f)
  show ?thesis
    using poolTwo_eq v n r r' s q q' sp f(3) by (simp add: txOut_def[symmetric])
qed

subsection \<open>Eviction\<close>

lemma foldl_delete:
  "foldl (\<lambda>m e. AList.delete (fst e) m) m es = filter (\<lambda>x. fst x \<notin> fst ` set es) m"
proof (induction es arbitrary: m)
  case Nil
  then show ?case by simp
next
  case (Cons e es)
  have "AList.delete (fst e) m = filter (\<lambda>x. fst x \<noteq> fst e) m"
    by (induct m) auto
  then show ?case by (simp add: Cons.IH conj_commute)
qed

lemma evict_pending:
  "pendingTransactions (evictLowestFeeTransactions p) =
     filter (\<lambda>x. fst x \<notin> fst ` set (evicted p)) (pendingTransactions p)"
  by (simp add: evictLowestFeeTransactions_def evicted_def price_def[abs_def] foldl_delete getSize_def Let_def)

lemma key_mem_iff:
  assumes "distinct (map fst xs)" "x \<in> set xs" "set es \<subseteq> set xs"
  shows "fst x \<in> fst ` set es \<longleftrightarrow> x \<in> set es"
proof
  assume "fst x \<in> fst ` set es"
  then obtain y where y: "y \<in> set es" "fst y = fst x" by auto
  with assms have "y \<in> set xs" by auto
  with assms(1,2) y(2) have "y = x" by (simp add: distinct_map inj_on_def)
  with y show "x \<in> set es" by simp
qed auto

lemma evicted_subset: "set (evicted p) \<subseteq> set (pendingTransactions p)"
  using set_take_subset[of "getSize p div 10" "sort_key price (pendingTransactions p)"]
  by (simp add: evicted_def)

lemma evict_pending_entries:
  assumes "distinct (map fst (pendingTransactions p))"
  shows "pendingTransactions (evictLowestFeeTransactions p) =
     filter (\<lambda>x. x \<notin> set (evicted p)) (pendingTransactions p)"
  unfolding evict_pending
  by (rule filter_cong[OF refl]) (simp add: key_mem_iff[OF assms _ evicted_subset])

lemma length_evicted: "length (evicted p) = getSize p div 10"
  by (simp add: evicted_def getSize_def)

lemma distinct_evicted:
  "distinct (map fst (pendingTransactions p)) \<Longrightarrow> distinct (evicted p)"
  by (simp add: evicted_def distinct_map)

lemma length_after_evict:
  assumes d: "distinct (map fst (pendingTransactions p))"
  shows "getSize (evictLowestFeeTransactions p) = getSize p - getSize p div 10"
proof -
  let ?xs = "pendingTransactions p"
  have dx: "distinct ?xs" using d by (simp add: distinct_map)
  have "length (filter (\<lambda>x. x \<notin> set (evicted p)) ?xs) = card (set ?xs - set (evicted p))"
    using dx by (simp add: distinct_length_filter Diff_eq Int_commute Collect_neg_eq set_diff_eq Collect_conj_eq)
  also have "\<dots> = card (set ?xs) - card (set (evicted p))"
    using evicted_subset by (intro card_Diff_subset) auto
  also have "\<dots> = length ?xs - length (evicted p)"
    using dx distinct_evicted[OF d] by (simp add: distinct_card)
  finally show ?thesis
    by (simp add: getSize_def evict_pending_entries[OF d] length_evicted)
qed

lemma evicted_lowest:
  assumes d: "distinct (map fst (pendingTransactions p))"
    and e: "e \<in> set (evicted p)"
    and r: "r \<in> set (pendingTransactions p)" "r \<notin> set (evicted p)"
  shows "price e \<le> price r"
proof -
  let ?S = "sort_key price (pendingTransactions p)"
  let ?k = "getSize p div 10"
  have "sorted (map price (take ?k ?S @ drop ?k ?S))" by simp
  then have *: "\<forall>x\<in>set (take ?k ?S). \<forall>y\<in>set (drop ?k ?S). price x \<le> price y"
    unfolding map_append sorted_append by auto
  have "r \<in> set (take ?k ?S @ drop ?k ?S)" using r(1) by simp
  with r(2) have "r \<in> set (drop ?k ?S)" unfolding set_append by (auto simp: evicted_def)
  with * e show ?thesis by (auto simp: evicted_def)
qed

lemma filter_eq_appendD:
  "filter P xs = A @ B \<Longrightarrow> \<exists>ys zs. xs = ys @ zs \<and> filter P ys = A \<and> filter P zs = B"
proof (induction xs arbitrary: A)
  case Nil
  then show ?case by simp
next
  case (Cons x xs)
  show ?case
  proof (cases "P x")
    case False
    with Cons.prems have "filter P xs = A @ B" by simp
    from Cons.IH[OF this] obtain ys zs where "xs = ys @ zs" "filter P ys = A" "filter P zs = B"
      by blast
    with False have "x # xs = (x # ys) @ zs \<and> filter P (x # ys) = A \<and> filter P zs = B" by simp
    then show ?thesis by blast
  next
    case True
    show ?thesis
    proof (cases A)
      case Nil
      with Cons.prems have "x # xs = [] @ (x # xs) \<and> filter P [] = A \<and> filter P (x # xs) = B"
        by simp
      then show ?thesis by blast
    next
      case (Cons a A')
      with True Cons.prems have "x = a" "filter P xs = A' @ B" by simp_all
      from Cons.IH[OF this(2)] obtain ys zs where "xs = ys @ zs" "filter P ys = A'" "filter P zs = B"
        by blast
      with True Cons \<open>x = a\<close> have "x # xs = (x # ys) @ zs \<and> filter P (x # ys) = A \<and> filter P zs = B"
        by simp
      then show ?thesis by blast
    qed
  qed
qed

lemma evicted_ties:
  assumes e: "e \<in> set (evicted p)"
    and r: "r \<in> set (pendingTransactions p)" "r \<notin> set (evicted p)"
    and eq: "price e = price r"
  shows "\<exists>ys zs. pendingTransactions p = ys @ zs \<and> e \<in> set ys \<and> r \<in> set zs"
proof -
  let ?S = "sort_key price (pendingTransactions p)"
  let ?k = "getSize p div 10"
  let ?P = "\<lambda>y. price y = price e"
  have "r \<in> set (take ?k ?S @ drop ?k ?S)" using r(1) by simp
  with r(2) have rd: "r \<in> set (drop ?k ?S)" unfolding set_append by (auto simp: evicted_def)
  have "filter ?P (take ?k ?S) @ filter ?P (drop ?k ?S) = filter ?P (take ?k ?S @ drop ?k ?S)"
    by (simp only: filter_append)
  also have "\<dots> = filter ?P ?S" by (simp only: append_take_drop_id)
  also have "\<dots> = filter ?P (pendingTransactions p)" by (rule sort_key_stable)
  finally have "filter ?P (pendingTransactions p) = filter ?P (take ?k ?S) @ filter ?P (drop ?k ?S)"
    by (rule sym)
  from filter_eq_appendD[OF this] obtain ys zs where
    s: "pendingTransactions p = ys @ zs" "filter ?P ys = filter ?P (take ?k ?S)"
       "filter ?P zs = filter ?P (drop ?k ?S)"
    by blast
  have "e \<in> set (filter ?P (take ?k ?S))" using e by (simp add: evicted_def)
  then have "e \<in> set (filter ?P ys)" by (simp only: s(2))
  then have "e \<in> set ys" by simp
  moreover have "r \<in> set (filter ?P (drop ?k ?S))" using rd eq by simp
  then have "r \<in> set (filter ?P zs)" by (simp only: s(3))
  then have "r \<in> set zs" by simp
  ultimately show ?thesis using s(1) by blast
qed

lemma addTransaction_full:
  assumes v: "validate t" and h: "\<not> hasTransaction p (tx_hash t)"
    and d: "distinct (map fst (pendingTransactions p))"
    and full: "getSize p \<ge> MAX_POOL_SIZE"
  shows "addTransaction p t =
     (True, p\<lparr>pendingTransactions :=
                filter (\<lambda>x. x \<notin> set (evicted p)) (pendingTransactions p) @ [(tx_hash t, t)]\<rparr>)"
proof -
  have "map_of (pendingTransactions p) (tx_hash t) = None"
    using h by (simp add: hasTransaction_def)
  then have "tx_hash t \<notin> fst ` set (pendingTransactions p)"
    by (simp add: map_of_eq_None_iff)
  then have "tx_hash t \<notin> fst ` set (filter (\<lambda>x. x \<notin> set (evicted p)) (pendingTransactions p))"
    by auto
  then have "map_of (filter (\<lambda>x. x \<notin> set (evicted p)) (pendingTransactions p)) (tx_hash t) = None"
    by (simp add: map_of_eq_None_iff)
  moreover have "evictLowestFeeTransactions p =
      p\<lparr>pendingTransactions := filter (\<lambda>x. x \<notin> set (evicted p)) (pendingTransactions p)\<rparr>"
    using evict_pending_entries[OF d] by (simp add: evictLowestFeeTransactions_def Let_def)
  ultimately show ?thesis
    using v h full
    by (simp add: addTransaction_def Let_def update_fresh)
qed

lemma addTransaction_room:
  assumes v: "validate t" and h: "\<not> hasTransaction p (tx_hash t)"
    and room: "getSize p < MAX_POOL_SIZE"
  shows "addTransaction p t = (True, p\<lparr>pendingTransactions := pendingTransactions p @ [(tx_hash t, t)]\<rparr>)"
  using assms by (simp add: addTransaction_def Let_def update_fresh hasTransaction_def)

text \<open>Admission keeps the hashes of the pool distinct, as the keys of a \<open>Map\<close> are.\<close>

lemma distinct_addTransaction:
  "distinct (map fst (pendingTransactions p)) \<Longrightarrow>
   distinct (map fst (pendingTransactions (snd (addTransaction p t))))"
  by (simp add: addTransaction_def Let_def evict_pending distinct_update distinct_map_filter)

subsection \<open>The pools of the eviction scenarios\<close>


lemma digitVal_digitChar: "d < 16 \<Longrightarrow> digitVal (digitChar d) = d"
  by (auto simp: digitVal_def digitChar_def Let_def)

lemma parseNat_snoc: "parseNat r (s @ [c]) = parseNat r s * r + digitVal c"
  by (simp add: parseNat_def)

lemma parseNat_natToString: "parseNat 16 (natToString 16 n) = n"
proof (induction "16::nat" n rule: natToString.induct)
  case (1 n)
  show ?case
  proof (cases "n < 16")
    case True
    then show ?thesis
      by (subst natToString.simps) (simp add: parseNat_def digitVal_digitChar)
  next
    case False
    with 1 have "parseNat 16 (natToString 16 (n div 16)) = n div 16" by simp
    with False show ?thesis
      by (subst natToString.simps) (simp add: parseNat_snoc digitVal_digitChar)
  qed
qed

lemma parseNat_zeros: "parseNat r (replicate k (CHR ''0'') @ s) = parseNat r s"
proof -
  have "foldl (\<lambda>a c. a * r + digitVal c) 0 (replicate k (CHR ''0'')) = 0"
    by (induction k) (simp_all add: digitVal_def)
  then show ?thesis by (simp add: parseNat_def)
qed

lemma parseNat_hashOf: "parseNat 16 (hashOf i) = i"
  by (simp add: hashOf_def padStart_def parseNat_zeros parseNat_natToString)

lemma hashOf_inj [simp]: "(hashOf i = hashOf j) = (i = j)"
  by (metis parseNat_hashOf)

lemma inj_hashOf: "inj_on hashOf A"
  by (simp add: inj_on_def)

lemma validate_poolTx: "0 \<le> g \<Longrightarrow> validate (poolTx i g)"
  by (simp add: validate_def poolTx_def createTransfer_def startsWith_def genesis2_def)

lemma tx_hash_poolTx [simp]: "tx_hash (poolTx i g) = hashOf i"
  by (simp add: poolTx_def createTransfer_def)

lemma gasPrice_poolTx [simp]: "gasPrice (poolTx i g) = g"
  by (simp add: poolTx_def)

lemma fst_poolEntry [simp]: "fst (poolEntry g i) = hashOf i"
  by (simp add: poolEntry_def)

lemma price_poolEntry [simp]: "price (poolEntry g i) = g i"
  by (simp add: poolEntry_def price_def parseFloat_def)

lemma poolEntry_inj [simp]: "(poolEntry g i = poolEntry g j) = (i = j)"
  by (auto simp: poolEntry_def)

lemma keys_generated: "map fst (map (poolEntry g) [0..<n]) = map hashOf [0..<n]"
  by simp

lemma distinct_generated: "distinct (map fst (map (poolEntry g) [0..<n]))"
  by (simp add: distinct_map inj_hashOf comp_def)

lemma sorted_generated:
  assumes "\<And>i j. i \<le> j \<Longrightarrow> g i \<le> g j"
  shows "sort_key price (map (poolEntry g) [0..<n]) = map (poolEntry g) [0..<n]"
proof (rule sort_key_id_if_sorted)
  show "sorted (map price (map (poolEntry g) [0..<n]))"
    using assms by (simp add: sorted_iff_nth_mono comp_def)
qed

lemma evicted_generated:
  assumes "\<And>i j. i \<le> j \<Longrightarrow> g i \<le> g j"
  shows "evicted \<lparr>pendingTransactions = map (poolEntry g) [0..<n]\<rparr> = map (poolEntry g) [0..<n div 10]"
  by (simp add: evicted_def getSize_def sorted_generated[OF assms] take_map)

lemma survivors_generated:
  assumes "k \<le> n"
  shows "filter (\<lambda>x. x \<notin> set (map (poolEntry g) [0..<k])) (map (poolEntry g) [0..<n])
           = map (poolEntry g) [k..<n]"
proof -
  have "[0..<n] = [0..<k] @ [k..<n]"
    using assms by (metis le_add_diff_inverse upt_add_eq_append zero_le)
  moreover have "filter (\<lambda>i. poolEntry g i \<notin> poolEntry g ` {0..<k}) [0..<k] = []"
    by (auto simp: filter_empty_conv)
  moreover have "filter (\<lambda>i. poolEntry g i \<notin> poolEntry g ` {0..<k}) [k..<n] = [k..<n]"
    by (auto simp: filter_id_conv)
  ultimately show ?thesis
    by (simp add: filter_map comp_def)
qed

lemma has_entries: "hasTransaction \<lparr>pendingTransactions = map (poolEntry g) js\<rparr> (hashOf i) = (i \<in> set js)"
  by (auto simp: hasTransaction_def map_of_eq_None_iff image_iff)

lemma admitAll_entries:
  assumes "\<And>i. 0 \<le> g i"
  shows "distinct js \<Longrightarrow> length js \<le> MAX_POOL_SIZE \<Longrightarrow>
    admitAll emptyPool (map (\<lambda>i. poolTx i (g i)) js) = \<lparr>pendingTransactions = map (poolEntry g) js\<rparr>"
proof (induction js rule: rev_induct)
  case Nil
  then show ?case by (simp add: admitAll_def emptyPool_def)
next
  case (snoc n js)
  let ?p = "\<lparr>pendingTransactions = map (poolEntry g) js\<rparr>"
  have "addTransaction ?p (poolTx n (g n)) =
      (True, ?p\<lparr>pendingTransactions := pendingTransactions ?p @ [(tx_hash (poolTx n (g n)), poolTx n (g n))]\<rparr>)"
    using snoc.prems by (intro addTransaction_room) (simp_all add: validate_poolTx assms has_entries getSize_def)
  moreover have "(hashOf n, poolTx n (g n)) = poolEntry g n" by (simp add: poolEntry_def)
  ultimately show ?case
    using snoc by (simp add: admitAll_def)
qed

subsection \<open>Admission at capacity\<close>

text \<open>
  C6 (as amended). When the pool holds \<open>MAX_POOL_SIZE\<close> entries, a valid transaction
  whose hash is not pending is admitted after an eviction: the entries removed are
  \<open>evicted p\<close>, the first tenth (\<open>MAX_POOL_SIZE div 10\<close> entries) of the stable
  ascending sort of the pool by gas price. Every evicted entry has a gas price no higher
  than every entry kept, and where an evicted and a kept entry have the same gas price
  the evicted one was inserted earlier: ties are broken by insertion order, not by
  hash. The new transaction is appended, and the resulting size,
  \<open>MAX_POOL_SIZE - MAX_POOL_SIZE div 10 + 1\<close>, is within the maximum. The result is a
  function of the pool in insertion order. Gas prices are within the range where
  \<open>parseFloat\<close> is exact.
\<close>


theorem addTransaction_at_capacity:
  assumes "validate t" and "\<not> hasTransaction p (tx_hash t)"
    and "distinct (map fst (pendingTransactions p))"
    and "getSize p = MAX_POOL_SIZE" and "exactPrices p"
  shows "fst (addTransaction p t) \<and>
    pendingTransactions (snd (addTransaction p t)) =
      filter (\<lambda>x. x \<notin> set (evicted p)) (pendingTransactions p) @ [(tx_hash t, t)] \<and>
    length (evicted p) = MAX_POOL_SIZE div 10 \<and>
    set (evicted p) \<subseteq> set (pendingTransactions p) \<and>
    (\<forall>e\<in>set (evicted p). \<forall>r\<in>set (pendingTransactions p) - set (evicted p).
        gasPrice (snd e) \<le> gasPrice (snd r) \<and>
        (gasPrice (snd e) = gasPrice (snd r) \<longrightarrow>
           (\<exists>ys zs. pendingTransactions p = ys @ zs \<and> e \<in> set ys \<and> r \<in> set zs))) \<and>
    getSize (snd (addTransaction p t)) = MAX_POOL_SIZE - MAX_POOL_SIZE div 10 + 1 \<and>
    getSize (snd (addTransaction p t)) \<le> MAX_POOL_SIZE"
proof -
  have full: "getSize p \<ge> MAX_POOL_SIZE" using assms(4) by simp
  note a = addTransaction_full[OF assms(1,2,3) full]
  have l: "length (filter (\<lambda>x. x \<notin> set (evicted p)) (pendingTransactions p)) = getSize p - getSize p div 10"
    using length_after_evict[OF assms(3)] evict_pending_entries[OF assms(3)] by (simp add: getSize_def)
  have low: "gasPrice (snd e) \<le> gasPrice (snd r) \<and>
        (gasPrice (snd e) = gasPrice (snd r) \<longrightarrow>
           (\<exists>ys zs. pendingTransactions p = ys @ zs \<and> e \<in> set ys \<and> r \<in> set zs))"
    if "e \<in> set (evicted p)" "r \<in> set (pendingTransactions p) - set (evicted p)" for e r
    using evicted_lowest[OF assms(3) that(1), of r] evicted_ties[OF that(1), of r] that(2)
    by (simp add: price_def parseFloat_def)
  have sz: "getSize (snd (addTransaction p t)) = MAX_POOL_SIZE - MAX_POOL_SIZE div 10 + 1"
    using l assms(4) by (simp add: a getSize_def)
  show ?thesis
    using low sz evicted_subset[of p] length_evicted[of p] assms(4)
    by (simp add: a MAX_POOL_SIZE_def)
qed

lemma exactPrices_rising: "exactPrices risingPool"
  by (auto simp: exactPrices_def risingPool_def list_all_iff poolEntry_def MAX_POOL_SIZE_def)

text \<open>
  The theorem on the pool at capacity with gas prices 1, 2, ..., 10000 (reached by
  admitting them in that order): a transaction of gas price 10001 is admitted, the
  entries with prices 1 to 1000 are evicted, and 9001 entries remain.
\<close>


theorem addTransaction_at_capacity_witness:
  "risingPool = admitAll emptyPool (map (\<lambda>i. poolTx i (int i + 1)) [0..<MAX_POOL_SIZE]) \<and>
   validate nextTx \<and> \<not> hasTransaction risingPool (tx_hash nextTx) \<and>
   distinct (map fst (pendingTransactions risingPool)) \<and>
   getSize risingPool = MAX_POOL_SIZE \<and> exactPrices risingPool \<and>
   map (gasPrice \<circ> snd) (pendingTransactions risingPool) = map (\<lambda>i. int i + 1) [0..<10000] \<and>
   gasPrice nextTx = 10001 \<and>
   fst (addTransaction risingPool nextTx) \<and>
   pendingTransactions (snd (addTransaction risingPool nextTx)) =
     map (poolEntry (\<lambda>i. int i + 1)) [1000..<10000] @ [(tx_hash nextTx, nextTx)] \<and>
   getSize (snd (addTransaction risingPool nextTx)) = 9001"
proof -
  have v: "validate nextTx" by (simp add: nextTx_def validate_poolTx)
  have h: "\<not> hasTransaction risingPool (tx_hash nextTx)"
    by (simp add: nextTx_def risingPool_def has_entries)
  have d: "distinct (map fst (pendingTransactions risingPool))"
    unfolding risingPool_def using distinct_generated by simp
  have n: "getSize risingPool = MAX_POOL_SIZE" by (simp add: getSize_def risingPool_def)
  have ev: "evicted risingPool = map (poolEntry (\<lambda>i. int i + 1)) [0..<1000]"
    unfolding risingPool_def by (subst evicted_generated) (simp_all add: MAX_POOL_SIZE_def del: upt_rec_numeral)
  have p: "pendingTransactions risingPool = map (poolEntry (\<lambda>i. int i + 1)) [0..<10000]"
    by (simp add: risingPool_def MAX_POOL_SIZE_def del: upt_rec_numeral)
  have keep: "filter (\<lambda>x. x \<notin> set (evicted risingPool)) (pendingTransactions risingPool)
      = map (poolEntry (\<lambda>i. int i + 1)) [1000..<10000]"
    unfolding ev p by (rule survivors_generated) simp
  have pr: "map (gasPrice \<circ> snd) (pendingTransactions risingPool) = map (\<lambda>i. int i + 1) [0..<10000]"
    by (simp add: risingPool_def MAX_POOL_SIZE_def poolEntry_def comp_def del: upt_rec_numeral)
  have g: "gasPrice nextTx = 10001" by (simp add: nextTx_def MAX_POOL_SIZE_def)
  have reach: "risingPool = admitAll emptyPool (map (\<lambda>i. poolTx i (int i + 1)) [0..<MAX_POOL_SIZE])"
    by (simp add: risingPool_def admitAll_entries)
  from addTransaction_at_capacity[OF v h d n exactPrices_rising]
  show ?thesis using reach v h d n exactPrices_rising pr g
    by (simp add: keep MAX_POOL_SIZE_def del: upt_rec_numeral)
qed

text \<open>
  C6 as stated fails on ties: \<open>flatPool\<close> and \<open>flatPoolRev\<close> hold the same set of
  10000 transactions, all of gas price 1, admitted in opposite orders. Admitting the
  same new transaction evicts the entry of hash \<open>hashOf 0\<close> from the first pool and
  keeps it in the second: the eviction depends on the insertion order, not on the set
  and the hashes alone.
\<close>


theorem addTransaction_tie_break_counterexample:
  "flatPool = admitAll emptyPool (map (\<lambda>i. poolTx i 1) [0..<MAX_POOL_SIZE]) \<and>
   flatPoolRev = admitAll emptyPool (rev (map (\<lambda>i. poolTx i 1) [0..<MAX_POOL_SIZE])) \<and>
   set (pendingTransactions flatPool) = set (pendingTransactions flatPoolRev) \<and>
   getSize flatPool = MAX_POOL_SIZE \<and>
   fst (addTransaction flatPool nextTx) \<and> fst (addTransaction flatPoolRev nextTx) \<and>
   poolEntry (\<lambda>i. 1) 0 \<notin> set (pendingTransactions (snd (addTransaction flatPool nextTx))) \<and>
   poolEntry (\<lambda>i. 1) 0 \<in> set (pendingTransactions (snd (addTransaction flatPoolRev nextTx)))"
proof -
  let ?f = "poolEntry (\<lambda>i. 1)"
  have v: "validate nextTx" by (simp add: nextTx_def validate_poolTx)
  have h1: "\<not> hasTransaction flatPool (tx_hash nextTx)"
    by (simp add: nextTx_def flatPool_def has_entries)
  have h2: "\<not> hasTransaction flatPoolRev (tx_hash nextTx)"
    by (auto simp: nextTx_def flatPoolRev_def hasTransaction_def map_of_eq_None_iff image_iff)
  have d1: "distinct (map fst (pendingTransactions flatPool))"
    unfolding flatPool_def using distinct_generated by simp
  have d2: "distinct (map fst (pendingTransactions flatPoolRev))"
    using distinct_generated[of "\<lambda>i. 1" MAX_POOL_SIZE] by (simp add: flatPoolRev_def rev_map[symmetric])
  have n1: "getSize flatPool \<ge> MAX_POOL_SIZE" and n2: "getSize flatPoolRev \<ge> MAX_POOL_SIZE"
    by (simp_all add: getSize_def flatPool_def flatPoolRev_def)
  have e1: "evicted flatPool = map ?f [0..<1000]"
    unfolding flatPool_def by (subst evicted_generated) (simp_all add: MAX_POOL_SIZE_def del: upt_rec_numeral)
  have "sort_key price (rev (map ?f [0..<MAX_POOL_SIZE])) = rev (map ?f [0..<MAX_POOL_SIZE])"
    by (rule sort_key_id_if_sorted) (simp add: sorted_iff_nth_mono rev_nth)
  then have e2: "evicted flatPoolRev = rev (map ?f [9000..<10000])"
    by (simp add: evicted_def flatPoolRev_def getSize_def take_rev drop_map MAX_POOL_SIZE_def del: upt_rec_numeral)
  note a1 = addTransaction_full[OF v h1 d1 n1] and a2 = addTransaction_full[OF v h2 d2 n2]
  have ne: "?f 0 \<noteq> (tx_hash nextTx, nextTx)"
    by (simp add: poolEntry_def nextTx_def MAX_POOL_SIZE_def)
  have out: "?f 0 \<notin> set (pendingTransactions (snd (addTransaction flatPool nextTx)))"
    using ne by (simp add: a1 e1 del: upt_rec_numeral)
  have "?f 0 \<in> set (pendingTransactions flatPoolRev)"
    by (simp add: flatPoolRev_def MAX_POOL_SIZE_def)
  moreover have "?f 0 \<notin> set (evicted flatPoolRev)"
    by (auto simp: e2 simp del: upt_rec_numeral)
  ultimately have inn: "?f 0 \<in> set (pendingTransactions (snd (addTransaction flatPoolRev nextTx)))"
    by (simp add: a2)
  have seteq: "set (pendingTransactions flatPool) = set (pendingTransactions flatPoolRev)"
    by (simp add: flatPool_def flatPoolRev_def)
  have sz: "getSize flatPool = MAX_POOL_SIZE" by (simp add: getSize_def flatPool_def)
  have f1: "fst (addTransaction flatPool nextTx)" by (simp add: a1)
  have f2: "fst (addTransaction flatPoolRev nextTx)" by (simp add: a2)
  have r1: "flatPool = admitAll emptyPool (map (\<lambda>i. poolTx i 1) [0..<MAX_POOL_SIZE])"
    by (simp add: flatPool_def admitAll_entries)
  have r2: "flatPoolRev = admitAll emptyPool (rev (map (\<lambda>i. poolTx i 1) [0..<MAX_POOL_SIZE]))"
    using admitAll_entries[of "\<lambda>i. 1" "rev [0..<MAX_POOL_SIZE]"]
    by (simp add: flatPoolRev_def rev_map)
  from r1 r2 seteq sz f1 f2 out inn show ?thesis by blast
qed

section \<open>Properties of PoSAConsensus\<close>


lemma finalizeRound_decided:
  "currentRound s = Some r \<Longrightarrow> decided (finalizeRound s now st) r now st"
proof -
  assume c: "currentRound s = Some r"
  have "tl (consensusHistory s @ [x]) = tl (consensusHistory s) @ [x]"
    if "length (consensusHistory s @ [x]) > 100" for x
    using that by (cases "consensusHistory s") simp_all
  then show ?thesis
    using c by (simp add: finalizeRound_def decided_def Let_def)
qed

lemma handleValidatorVote_accepted:
  assumes "currentRound s = Some r" and "accepts s vote"
  shows "handleValidatorVote s now vote =
     checkConsensusStatus (s\<lparr>currentRound := Some (r\<lparr>votes := votes r @ [vote]\<rparr>),
                            emitted := emitted s @ [VoteReceived vote]\<rparr>) now"
  using assms by (simp add: handleValidatorVote_def accepts_def)

text \<open>
  C2. After every accepted vote the tally is taken on the votes of the round including
  the new one: with \<open>A\<close> the number of its votes that approve, \<open>R\<close> the number that
  reject, quorum \<open>Q\<close> and validator count \<open>N\<close>, the round is decided as approved when
  \<open>A \<ge> Q\<close>; else as rejected when \<open>R \<ge> Q\<close>; else, when \<open>N\<close> votes are in, by
  plurality (approved when \<open>A > R\<close>, rejected otherwise); else the round stays open
  with the vote recorded.
\<close>

theorem handleValidatorVote_tally:
  assumes "currentRound s = Some r" and "accepts s vote"
  shows "let r' = r\<lparr>votes := votes r @ [vote]\<rparr>;
             A = length (filter (\<lambda>v. v_vote v = Approve) (votes r'));
             R = length (filter (\<lambda>v. v_vote v = Reject) (votes r'));
             Q = requiredVotes (config s); N = validatorCount (config s);
             s' = handleValidatorVote s now vote
         in if int A \<ge> Q then decided s' r' now Approved
            else if int R \<ge> Q then decided s' r' now Rejected
            else if int (length (votes r')) \<ge> N
                 then (if A > R then decided s' r' now Approved else decided s' r' now Rejected)
            else currentRound s' = Some r' \<and> consensusHistory s' = consensusHistory s"
proof -
  let ?r = "r\<lparr>votes := votes r @ [vote]\<rparr>"
  let ?s = "s\<lparr>currentRound := Some ?r, emitted := emitted s @ [VoteReceived vote]\<rparr>"
  have c: "currentRound ?s = Some ?r" by simp
  note f = finalizeRound_decided[OF c]
  show ?thesis
    unfolding handleValidatorVote_accepted[OF assms] Let_def
    using f[of now Approved] f[of now Rejected]
    by (simp add: checkConsensusStatus_def)
qed

lemmas consensus_eval =
  castAll_def castEach_def roundA_def proposeBlock_def started_def initializeConsensus_def
  newConsensus_def handleValidatorVote_def checkConsensusStatus_def voteOf_def
  validateVoteSignature_def sixFour_def blockA_def blockB_def finalizeRound_def
  handleRoundTimeout_def fireTimer_def Let_def

lemma roundA3_eq:
  "roundA3 =
     \<lparr>currentRound = Some \<lparr>blockHash = blockA, proposer = ''claude'', startTime = 0,
                           votes = [voteOf blockA ''claude'' Approve, voteOf blockA ''gpt'' Approve,
                                    voteOf blockA ''grok'' Approve],
                           status = Pending, finalizedAt = None\<rparr>,
      consensusHistory = [], config = sixFour, isActive = True, timers = [blockA],
      emitted = [RoundStarted (Some \<lparr>blockHash = blockA, proposer = ''claude'', startTime = 0,
                                        votes = [], status = Pending, finalizedAt = None\<rparr>),
                 VoteReceived (voteOf blockA ''claude'' Approve),
                 VoteReceived (voteOf blockA ''gpt'' Approve),
                 VoteReceived (voteOf blockA ''grok'' Approve)]\<rparr>"
  by (simp add: roundA3_def consensus_eval)

lemma roundMixed_eq:
  "roundMixed =
     \<lparr>currentRound = Some \<lparr>blockHash = blockA, proposer = ''claude'', startTime = 0,
                           votes = [voteOf blockA ''claude'' Approve, voteOf blockA ''gpt'' Reject,
                                    voteOf blockA ''grok'' Approve, voteOf blockA ''stable'' Reject,
                                    voteOf blockA ''perplex'' Approve],
                           status = Pending, finalizedAt = None\<rparr>,
      consensusHistory = [], config = sixFour, isActive = True, timers = [blockA],
      emitted = [RoundStarted (Some \<lparr>blockHash = blockA, proposer = ''claude'', startTime = 0,
                                        votes = [], status = Pending, finalizedAt = None\<rparr>),
                 VoteReceived (voteOf blockA ''claude'' Approve),
                 VoteReceived (voteOf blockA ''gpt'' Reject),
                 VoteReceived (voteOf blockA ''grok'' Approve),
                 VoteReceived (voteOf blockA ''stable'' Reject),
                 VoteReceived (voteOf blockA ''perplex'' Approve)]\<rparr>"
  by (simp add: roundMixed_def consensus_eval)

lemma decided_status:
  assumes "decided s' r now st" and "length (consensusHistory s') = 1"
  shows "map status (consensusHistory s') = [st]"
proof -
  from assms(1) have "last (consensusHistory s') = r\<lparr>status := st, finalizedAt := Some now\<rparr>"
    by (simp add: decided_def)
  with assms(2) show ?thesis
    by (cases "consensusHistory s'") auto
qed

text \<open>
  The theorem with six validators and quorum four, on a round that holds three
  approvals and two rejections. A sixth vote that approves makes four approvals: the
  round is decided as approved by the quorum. A sixth vote that rejects makes three of
  each with all six votes in: no side has the quorum, the approvals do not outnumber
  the rejections, and the round is decided as rejected.
\<close>

theorem handleValidatorVote_tally_witness:
  "currentRound roundMixed = Some (the (currentRound roundMixed)) \<and>
   map v_vote (votes (the (currentRound roundMixed))) = [Approve, Reject, Approve, Reject, Approve] \<and>
   validatorCount (config roundMixed) = 6 \<and> requiredVotes (config roundMixed) = 4 \<and>
   accepts roundMixed (voteOf blockA ''gemini'' Approve) \<and>
   accepts roundMixed (voteOf blockA ''gemini'' Reject) \<and>
   decided (handleValidatorVote roundMixed 2 (voteOf blockA ''gemini'' Approve))
     ((the (currentRound roundMixed))\<lparr>votes := votes (the (currentRound roundMixed)) @ [voteOf blockA ''gemini'' Approve]\<rparr>)
     2 Approved \<and>
   map status (consensusHistory (handleValidatorVote roundMixed 2 (voteOf blockA ''gemini'' Approve))) = [Approved] \<and>
   decided (handleValidatorVote roundMixed 2 (voteOf blockA ''gemini'' Reject))
     ((the (currentRound roundMixed))\<lparr>votes := votes (the (currentRound roundMixed)) @ [voteOf blockA ''gemini'' Reject]\<rparr>)
     2 Rejected \<and>
   map status (consensusHistory (handleValidatorVote roundMixed 2 (voteOf blockA ''gemini'' Reject))) = [Rejected]"
proof -
  let ?r = "the (currentRound roundMixed)"
  let ?va = "voteOf blockA ''gemini'' Approve"
  let ?vr = "voteOf blockA ''gemini'' Reject"
  have c: "currentRound roundMixed = Some ?r"
    by (simp add: roundMixed_eq)
  have m: "map v_vote (votes ?r) = [Approve, Reject, Approve, Reject, Approve]"
    by (simp add: roundMixed_eq voteOf_def)
  have a: "accepts roundMixed ?va" "accepts roundMixed ?vr"
    by (simp_all add: roundMixed_eq accepts_def voteOf_def validateVoteSignature_def)
  have n: "validatorCount (config roundMixed) = 6" "requiredVotes (config roundMixed) = 4"
    by (simp_all add: roundMixed_eq sixFour_def)
  have ka: "length (filter (\<lambda>v. v_vote v = Approve) (votes (?r\<lparr>votes := votes ?r @ [?va]\<rparr>))) = 4"
    "length (filter (\<lambda>v. v_vote v = Reject) (votes (?r\<lparr>votes := votes ?r @ [?va]\<rparr>))) = 2"
    by (simp_all add: roundMixed_eq voteOf_def)
  have kr: "length (filter (\<lambda>v. v_vote v = Approve) (votes (?r\<lparr>votes := votes ?r @ [?vr]\<rparr>))) = 3"
    "length (filter (\<lambda>v. v_vote v = Reject) (votes (?r\<lparr>votes := votes ?r @ [?vr]\<rparr>))) = 3"
    "length (votes (?r\<lparr>votes := votes ?r @ [?vr]\<rparr>)) = 6"
    by (simp_all add: roundMixed_eq voteOf_def)
  from handleValidatorVote_tally[OF c a(1), of 2]
  have da: "decided (handleValidatorVote roundMixed 2 ?va) (?r\<lparr>votes := votes ?r @ [?va]\<rparr>) 2 Approved"
    unfolding Let_def ka n by simp
  from handleValidatorVote_tally[OF c a(2), of 2]
  have dr: "decided (handleValidatorVote roundMixed 2 ?vr) (?r\<lparr>votes := votes ?r @ [?vr]\<rparr>) 2 Rejected"
    unfolding Let_def kr n by simp
  have la: "length (consensusHistory (handleValidatorVote roundMixed 2 ?va)) = 1"
    by (simp add: roundMixed_eq consensus_eval)
  have lr: "length (consensusHistory (handleValidatorVote roundMixed 2 ?vr)) = 1"
    by (simp add: roundMixed_eq consensus_eval)
  note sa = decided_status[OF da la] and sr = decided_status[OF dr lr]
  from c m n a da dr sa sr show ?thesis by (simp only: simp_thms)
qed

text \<open>
  C3 does not hold of the code. A round with one vote, fewer than the quorum of four, is
  pending when its timer fires. \<open>handleRoundTimeout\<close> finalizes it with the status
  \<open>rejected\<close>: the history holds the round as rejected, and the count of rounds with
  status \<open>timeout\<close> that \<open>getConsensusStats\<close> takes stays 0.
\<close>


theorem timeout_recorded_as_rejected:
  "map_option status (currentRound roundA1) = Some Pending \<and>
   map_option (\<lambda>r. length (votes r)) (currentRound roundA1) = Some 1 \<and>
   requiredVotes (config roundA1) = 4 \<and>
   timers roundA1 = [blockA] \<and>
   currentRound (fireTimer roundA1 30000) = None \<and>
   map blockHash (consensusHistory (fireTimer roundA1 30000)) = [blockA] \<and>
   map status (consensusHistory (fireTimer roundA1 30000)) = [Rejected] \<and>
   timeoutRounds (fireTimer roundA1 30000) = 0"
  by (simp add: roundA1_def consensus_eval timeoutRounds_def recentRounds_def)

text \<open>
  C4 does not hold of the code. The round for \<open>blockA\<close> is approved by four votes and
  its timer stays scheduled. The next round, for \<open>blockB\<close>, is opened and is pending
  with no vote when the timer set for \<open>blockA\<close> fires: \<open>handleRoundTimeout\<close> finds a
  pending round and rejects it, while the timer of \<open>blockB\<close> itself is still waiting.
\<close>


theorem stale_timer_ends_later_round:
  "map status (consensusHistory roundA4) = [Approved] \<and>
   currentRound roundA4 = None \<and>
   timers roundA4 = [blockA] \<and>
   map_option blockHash (currentRound roundB) = Some blockB \<and>
   map_option status (currentRound roundB) = Some Pending \<and>
   timers roundB = [blockA, blockB] \<and>
   blockA \<noteq> blockB \<and>
   currentRound (fireTimer roundB 30000) = None \<and>
   map blockHash (consensusHistory (fireTimer roundB 30000)) = [blockA, blockB] \<and>
   map status (consensusHistory (fireTimer roundB 30000)) = [Approved, Rejected] \<and>
   timers (fireTimer roundB 30000) = [blockB]"
  by (simp add: roundB_def roundA4_def roundA3_eq consensus_eval)

section \<open>Properties of Chain\<close>

text \<open>
  C9 (as amended). For every chain and every target hash, \<open>reorg\<close> returns \<open>false\<close>,
  an ordinary result and not an error; it writes a warning to the log and leaves the
  blocks and the height as they are.
\<close>


theorem reorg_returns_false:
  "reorg c targetHash =
     (Inr False, c\<lparr>warnings := warnings c @ [''Blockchain reorganization requested'']\<rparr>) \<and>
   blocksByNumber (snd (reorg c targetHash)) = blocksByNumber c \<and>
   currentHeight (snd (reorg c targetHash)) = currentHeight c"
  by (simp add: reorg_def)

text \<open>
  C9 as stated fails: on the genesis chain \<open>reorg\<close> answers \<open>false\<close>, which is not
  the error \<open>NotSupported\<close>.
\<close>


theorem reorg_not_supported_counterexample:
  "fst (reorg genesisChain blockA) = Inr False \<and> fst (reorg genesisChain blockA) \<noteq> Inl NotSupported"
  by (simp add: reorg_def)

text \<open>
  C10 does not hold of the code. Block 1 of \<open>chainOne\<close> holds a valid contract
  deployment, whose recipient is \<open>null\<close>, created for the first genesis account, and a
  query for the second genesis account raises a TypeError. As the repository builds
  it, the deployment has no sender, and \<open>tx.from.toLowerCase()\<close> raises. With the
  sender attached (\<open>chainOneSender\<close>), the query does not match the sender, evaluates
  \<open>tx.to.toLowerCase()\<close> on the \<open>null\<close> recipient and raises. The query returns a
  list when the sender matches, as the second test is then not evaluated, and when the
  transaction has a recipient.
\<close>

theorem getTransactionsByAddress_null_recipient:
  "validate txC \<and> tx_to txC = None \<and> tx_from txC = None \<and>
   blocksByNumber chainOne 1 = Some blockOne \<and> transactions blockOne = [txC] \<and>
   getTransactionsByAddress chainOne genesis2 50 = Inl TypeError \<and>
   validate (withSender genesis1 txC) \<and> tx_to (withSender genesis1 txC) = None \<and>
   tx_from (withSender genesis1 txC) = Some genesis1 \<and>
   toLowerCase genesis1 \<noteq> toLowerCase genesis2 \<and>
   blocksByNumber chainOneSender 1 = Some blockOneSender \<and>
   transactions blockOneSender = [withSender genesis1 txC] \<and>
   getTransactionsByAddress chainOneSender genesis2 50 = Inl TypeError \<and>
   getTransactionsByAddress chainOneSender genesis1 50 = Inr [withSender genesis1 txC] \<and>
   scanBlock genesis2 50 [] [withSender genesis1 tx0] = Inr [withSender genesis1 tx0]"
proof -
  have t: "tx_to txC = None" "tx_from txC = None" "validate txC"
    by (simp_all add: txC_def createContractDeployment_def validate_def startsWith_def)
  have w: "tx_to (withSender genesis1 txC) = None" "tx_from (withSender genesis1 txC) = Some genesis1"
    using t by (simp_all add: withSender_def)
  have wv: "validate (withSender genesis1 txC)"
    using t by simp
  have w0: "tx_to (withSender genesis1 tx0) = Some genesis2" "tx_from (withSender genesis1 tx0) = Some genesis1"
    by (simp_all add: withSender_def tx0_def createTransfer_def)
  have g: "toLowerCase genesis1 \<noteq> toLowerCase genesis2"
    by (simp add: genesis1_def genesis2_def)
  have c1: "getTransactionsByAddress chainOne genesis2 50 = Inl TypeError"
    by (simp add: getTransactionsByAddress_def scanHeight_def chainOne_def blockOne_def t)
  have c2: "getTransactionsByAddress chainOneSender genesis2 50 = Inl TypeError"
    by (simp add: getTransactionsByAddress_def scanHeight_def chainOneSender_def blockOneSender_def w g)
  have c3: "getTransactionsByAddress chainOneSender genesis1 50 = Inr [withSender genesis1 txC]"
    by (simp add: getTransactionsByAddress_def scanHeight_def chainOneSender_def blockOneSender_def
        genesisBlock_def w)
  have c4: "scanBlock genesis2 50 [] [withSender genesis1 tx0] = Inr [withSender genesis1 tx0]"
    by (simp add: w0 g)
  have b: "blocksByNumber chainOne 1 = Some blockOne" "transactions blockOne = [txC]"
    "blocksByNumber chainOneSender 1 = Some blockOneSender"
    "transactions blockOneSender = [withSender genesis1 txC]"
    by (simp_all add: chainOne_def blockOne_def chainOneSender_def blockOneSender_def)
  show ?thesis
    using t w wv g c1 c2 c3 c4 b by (simp only: simp_thms)
qed

end
